theory Spec2Isabelle
  imports Main "HOL-Library.Multiset" "HOL-Library.Sublist"
begin

section \<open>Host values\<close>

text \<open>
  The program is JavaScript. Strings are modelled as lists of 8-bit code units, which
  is exact for strings whose code units are all below 256. Numbers are modelled as
  integers (the identifiers, popularity scores and comparison results the program
  handles are integers), exact where the host's numbers are: below \<open>2^53\<close> in
  magnitude. A value of the host language that the remote API can return,
  or that a field of an entry can hold, is a \<open>json\<close> value; \<open>JUndefined\<close> is the
  host's \<open>undefined\<close> and \<open>JNaN\<close> its not-a-number.
\<close>

datatype json =
    JUndefined
  | JNull
  | JBool bool
  | JNum int
  | JNaN
  | JStr string
  | JArr "json list"
  | JObj "(string \<times> json) list"

text \<open>
  What a rejected promise or a thrown exception carries: a \<open>TypeError\<close> raised by the
  host (a property read on \<open>undefined\<close> or \<open>null\<close>, a call of something that is not
  a function, \<open>reduce\<close> of an empty array with no initial value), or the reason a
  promise was rejected with. \<open>Unmodelled\<close> marks the one input on which the host
  neither raises nor stays inside this model (see \<open>Queue_group\<close>).
\<close>

datatype error = TypeError | Reason json | Unmodelled

section \<open>sort.js: the comparator framework\<close>

definition identity :: "'a \<Rightarrow> 'a" where
  "identity x = x"

text \<open>
  \<open>sort.ascending(fn)\<close> and \<open>sort.descending(fn)\<close>. The host's \<open><\<close> on the scores
  is the parameter \<open>lt\<close>; \<open>x > y\<close> is \<open>lt y x\<close>. The default \<open>fn = sort.identity\<close> is
  \<open>ascending lt identity\<close>.
\<close>

definition ascending :: "('k \<Rightarrow> 'k \<Rightarrow> bool) \<Rightarrow> ('a \<Rightarrow> 'k) \<Rightarrow> 'a \<Rightarrow> 'a \<Rightarrow> int" where
  "ascending lt fn a b =
     (let x = fn a; y = fn b
      in if lt x y then - 1 else (if lt y x then 1 else 0))"

definition descending :: "('k \<Rightarrow> 'k \<Rightarrow> bool) \<Rightarrow> ('a \<Rightarrow> 'k) \<Rightarrow> 'a \<Rightarrow> 'a \<Rightarrow> int" where
  "descending lt fn a b =
     (let x = fn a; y = fn b
      in if lt x y then 1 else (if lt y x then - 1 else 0))"

text \<open>
  \<open>sort.combine(...)\<close>: \<open>args.reduce(callback)\<close> with no initial value. The host's
  \<open>reduce\<close> raises a TypeError on an empty array, returns the only element of a
  one-element array, and folds from the left otherwise.
\<close>

definition callback :: "('a \<Rightarrow> 'a \<Rightarrow> int) \<Rightarrow> ('a \<Rightarrow> 'a \<Rightarrow> int) \<Rightarrow> 'a \<Rightarrow> 'a \<Rightarrow> int" where
  "callback fn1 fn2 = (\<lambda>a b. let val = fn1 a b in if val = 0 then fn2 a b else val)"

definition combine :: "('a \<Rightarrow> 'a \<Rightarrow> int) list \<Rightarrow> error + ('a \<Rightarrow> 'a \<Rightarrow> int)" where
  "combine args =
     (case args of
        [] \<Rightarrow> Inl TypeError
      | fn # fns \<Rightarrow> Inr (foldl callback fn fns))"

text \<open>The first non-zero value of a list of comparison results, 0 when there is none.\<close>

fun first_nonzero :: "int list \<Rightarrow> int" where
  "first_nonzero [] = 0"
| "first_nonzero (v # vs) = (if v = 0 then first_nonzero vs else v)"

subsection \<open>The host's array sort\<close>

text \<open>
  \<open>Array.prototype.sort\<close> is a primitive of the host, not code of this repository.
  What every version of ECMAScript fixes is modelled as it is written: the elements
  that are \<open>undefined\<close> are moved to the end and never compared; the other elements
  are compared by the comparison function, or, when none is given, by their string
  conversions, code unit by code unit (\<open>SortCompare\<close>). How the host orders the
  defined elements from these comparisons is its own business, and a parameter of
  the model, \<open>sort_defined\<close>. The other parameters are the host's view of the
  elements: \<open>is_undefined\<close> and the string conversion \<open>string_of\<close>. A comparison
  function is a function to the integers: one that raises, or that returns something
  other than a number, is outside the model.
\<close>

text \<open>The host's \<open><\<close> on two strings: lexicographic on code units.\<close>

fun js_string_lt :: "string \<Rightarrow> string \<Rightarrow> bool" where
  "js_string_lt [] [] = False"
| "js_string_lt [] (y # ys) = True"
| "js_string_lt (x # xs) [] = False"
| "js_string_lt (x # xs) (y # ys) =
     (if (of_char x :: nat) < of_char y then True
      else if (of_char y :: nat) < of_char x then False
      else js_string_lt xs ys)"

definition SortCompare :: "('a \<Rightarrow> string) \<Rightarrow> 'a \<Rightarrow> 'a \<Rightarrow> int" where
  "SortCompare string_of x y =
     (let xString = string_of x; yString = string_of y
      in if js_string_lt xString yString then - 1
         else if js_string_lt yString xString then 1
         else 0)"

definition Array_sort ::
  "('a \<Rightarrow> bool) \<Rightarrow> (('a \<Rightarrow> 'a \<Rightarrow> int) \<Rightarrow> 'a list \<Rightarrow> 'a list) \<Rightarrow> ('a \<Rightarrow> string)
   \<Rightarrow> ('a \<Rightarrow> 'a \<Rightarrow> int) option \<Rightarrow> 'a list \<Rightarrow> 'a list" where
  "Array_sort is_undefined sort_defined string_of comparefn xs =
     (let cmp = (case comparefn of None \<Rightarrow> SortCompare string_of | Some f \<Rightarrow> f)
      in sort_defined cmp (filter (\<lambda>x. \<not> is_undefined x) xs) @ filter is_undefined xs)"

text \<open>
  A consistent comparison function for a set of values, as ECMAScript defines it:
  the values it calls equal form equivalence classes, and the classes are totally
  ordered.
\<close>

definition consistent_on :: "'a set \<Rightarrow> ('a \<Rightarrow> 'a \<Rightarrow> int) \<Rightarrow> bool" where
  "consistent_on S cmp \<longleftrightarrow>
     (\<forall>a\<in>S. cmp a a = 0) \<and>
     (\<forall>a\<in>S. \<forall>b\<in>S. cmp a b = 0 \<longrightarrow> cmp b a = 0) \<and>
     (\<forall>a\<in>S. \<forall>b\<in>S. \<forall>c\<in>S. cmp a b = 0 \<and> cmp b c = 0 \<longrightarrow> cmp a c = 0) \<and>
     (\<forall>a\<in>S. \<forall>b\<in>S. \<forall>c\<in>S. cmp a b < 0 \<and> cmp b c < 0 \<longrightarrow> cmp a c < 0) \<and>
     (\<forall>a\<in>S. \<forall>b\<in>S. \<forall>c\<in>S. cmp a b > 0 \<and> cmp b c > 0 \<longrightarrow> cmp a c > 0)"

text \<open>
  What ECMAScript 2019 requires of the host's ordering of the defined elements, for
  a comparison function that is consistent on them: the result is a permutation, in
  non-descending order, and stable (the elements that compare equal to a given one
  keep their relative order). For other comparison functions the order is left to
  the implementation, and nothing is said of it here. Before ECMAScript 2019 the
  sort did not have to be stable.
\<close>

definition stable_sort :: "(('a \<Rightarrow> 'a \<Rightarrow> int) \<Rightarrow> 'a list \<Rightarrow> 'a list) \<Rightarrow> bool" where
  "stable_sort sort_defined \<longleftrightarrow>
     (\<forall>cmp xs. consistent_on (set xs) cmp \<longrightarrow>
        mset (sort_defined cmp xs) = mset xs \<and>
        sorted_wrt (\<lambda>u v. cmp u v \<le> 0) (sort_defined cmp xs) \<and>
        (\<forall>a\<in>set xs. filter (\<lambda>y. cmp a y = 0) (sort_defined cmp xs)
                       = filter (\<lambda>y. cmp a y = 0) xs))"

text \<open>
  One ordering that meets the requirement, the sort by insertion: an element is
  placed before the first later element that it does not compare greater than.
\<close>

fun insert_by :: "('a \<Rightarrow> 'a \<Rightarrow> int) \<Rightarrow> 'a \<Rightarrow> 'a list \<Rightarrow> 'a list" where
  "insert_by cmp x [] = [x]"
| "insert_by cmp x (y # ys) =
     (if cmp x y \<le> 0 then x # y # ys else y # insert_by cmp x ys)"

fun insertion_sort :: "('a \<Rightarrow> 'a \<Rightarrow> int) \<Rightarrow> 'a list \<Rightarrow> 'a list" where
  "insertion_sort cmp [] = []"
| "insertion_sort cmp (x # xs) = insert_by cmp x (insertion_sort cmp xs)"

text \<open>
  Another one, the quicksort in three parts around the first element: the elements
  that compare less than it, those that compare equal to it, and those that compare
  greater, each part in the original order of its elements.
\<close>

fun quicksort :: "('a \<Rightarrow> 'a \<Rightarrow> int) \<Rightarrow> 'a list \<Rightarrow> 'a list" where
  "quicksort cmp [] = []"
| "quicksort cmp (p # xs) =
     quicksort cmp (filter (\<lambda>x. cmp x p < 0) xs)
     @ p # filter (\<lambda>x. cmp x p = 0) xs
     @ quicksort cmp (filter (\<lambda>x. 0 < cmp x p) xs)"

subsection \<open>sort.stableSort\<close>

text \<open>
  Each element is paired with its position (\<open>pair\<close>, with the counter \<open>i++\<close>), the
  pairs are sorted by \<open>fn\<close> on the values and then by position, and the values are
  taken out again. \<open>lt\<close> is the host's \<open><\<close> on the elements, used by the default
  comparison function \<open>sort.ascending()\<close>; \<open>sort_pairs\<close> is the host's ordering of
  the pairs, which are objects: none is \<open>undefined\<close>, and their string conversion,
  never used here, is \<open>[object Object]\<close>.
\<close>

record 'a pair =
  key :: nat
  val :: 'a

fun map_pair :: "nat \<Rightarrow> 'a list \<Rightarrow> 'a pair list" where
  "map_pair i [] = []"
| "map_pair i (x # xs) = \<lparr>key = i, val = x\<rparr> # map_pair (Suc i) xs"

definition stableSort ::
  "('a \<Rightarrow> 'a \<Rightarrow> bool) \<Rightarrow> (('a pair \<Rightarrow> 'a pair \<Rightarrow> int) \<Rightarrow> 'a pair list \<Rightarrow> 'a pair list)
   \<Rightarrow> 'a list \<Rightarrow> ('a \<Rightarrow> 'a \<Rightarrow> int) option \<Rightarrow> error + 'a list" where
  "stableSort lt sort_pairs arr fn =
     (let fn' = (case fn of None \<Rightarrow> ascending lt identity | Some f \<Rightarrow> f)
      in case combine [\<lambda>a b. fn' (val a) (val b), ascending (<) key] of
           Inl e \<Rightarrow> Inl e
         | Inr cmp \<Rightarrow>
             (let pairs = map_pair 0 arr;
                  pairs = Array_sort (\<lambda>p. False) sort_pairs (\<lambda>p. ''[object Object]'')
                            (Some cmp) pairs
              in Inr (map val pairs)))"

text \<open>
  The host's conversion of a number to a string: decimal digits, with a sign (the
  form the host uses for the integers below \<open>10^21\<close> in magnitude).
\<close>

function decimal :: "nat \<Rightarrow> string" where
  "decimal n =
     (if n < 10 then [char_of (48 + n)]
      else decimal (n div 10) @ [char_of (48 + n mod 10)])"
  by pat_completeness auto
termination
  by (relation "measure id") auto

definition Number_toString :: "int \<Rightarrow> string" where
  "Number_toString i = (if i < 0 then CHR ''-'' # decimal (nat (- i)) else decimal (nat i))"

section \<open>spotify.js: Queue\<close>

text \<open>
  A Queue is its array \<open>queue\<close>, a list. The methods that change the Queue in place
  and return it are modelled by the new contents of the array.
\<close>

definition Queue_add :: "'a list \<Rightarrow> 'a \<Rightarrow> 'a list" where
  "Queue_add queue entry = queue @ [entry]"

text \<open>
  \<open>Queue.sort(fn)\<close>: \<open>self.queue = self.queue.sort(fn)\<close>, the host's array sort with
  the comparison function as given (possibly none).
\<close>

definition Queue_sort ::
  "('a \<Rightarrow> bool) \<Rightarrow> (('a \<Rightarrow> 'a \<Rightarrow> int) \<Rightarrow> 'a list \<Rightarrow> 'a list) \<Rightarrow> ('a \<Rightarrow> string)
   \<Rightarrow> ('a \<Rightarrow> 'a \<Rightarrow> int) option \<Rightarrow> 'a list \<Rightarrow> 'a list" where
  "Queue_sort is_undefined sort_defined string_of fn queue =
     Array_sort is_undefined sort_defined string_of fn queue"

text \<open>
  \<open>Queue.contains(obj)\<close>. \<open>equals\<close> is the read of the property \<open>equals\<close> of an
  element: it raises on an element that is \<open>undefined\<close> or \<open>null\<close>, and gives the
  method, if the element has one; a call of the method may raise. \<open>same\<close> is the
  host's \<open>===\<close>, reference identity on objects.
\<close>

fun Queue_contains ::
  "('a \<Rightarrow> error + ('a \<Rightarrow> error + bool) option) \<Rightarrow> ('a \<Rightarrow> 'a \<Rightarrow> bool) \<Rightarrow> 'a list \<Rightarrow> 'a
   \<Rightarrow> error + bool" where
  "Queue_contains equals same [] obj = Inr False"
| "Queue_contains equals same (entry # rest) obj =
     (case equals entry of
        Inl e \<Rightarrow> Inl e
      | Inr None \<Rightarrow>
          if same entry obj then Inr True else Queue_contains equals same rest obj
      | Inr (Some entry_equals) \<Rightarrow>
          (case entry_equals obj of
             Inl e \<Rightarrow> Inl e
           | Inr b \<Rightarrow>
               if b \<or> same entry obj then Inr True
               else Queue_contains equals same rest obj))"

text \<open>
  \<open>Queue.dedup()\<close>: the loop over \<open>self.queue\<close> that fills \<open>result\<close>. When
  \<open>contains\<close> raises, so does \<open>dedup\<close>, and the Queue is left as it was.
\<close>

fun dedup_loop ::
  "('a \<Rightarrow> error + ('a \<Rightarrow> error + bool) option) \<Rightarrow> ('a \<Rightarrow> 'a \<Rightarrow> bool) \<Rightarrow> 'a list \<Rightarrow> 'a list
   \<Rightarrow> error + 'a list" where
  "dedup_loop equals same result [] = Inr result"
| "dedup_loop equals same result (entry # rest) =
     (case Queue_contains equals same result entry of
        Inl e \<Rightarrow> Inl e
      | Inr found \<Rightarrow>
          if \<not> found then dedup_loop equals same (Queue_add result entry) rest
          else dedup_loop equals same result rest)"

definition Queue_dedup ::
  "('a \<Rightarrow> error + ('a \<Rightarrow> error + bool) option) \<Rightarrow> ('a \<Rightarrow> 'a \<Rightarrow> bool) \<Rightarrow> 'a list
   \<Rightarrow> error + 'a list" where
  "Queue_dedup equals same queue = dedup_loop equals same [] queue"

text \<open>
  The equality rule of \<open>contains\<close> for one element of the Queue and one object, and
  the list that keeps, of a list, each element that no kept element before it is
  equal to under a rule \<open>eq\<close>.
\<close>

definition contains_rule ::
  "('a \<Rightarrow> error + ('a \<Rightarrow> error + bool) option) \<Rightarrow> ('a \<Rightarrow> 'a \<Rightarrow> bool) \<Rightarrow> 'a \<Rightarrow> 'a
   \<Rightarrow> error + bool" where
  "contains_rule equals same entry obj =
     (case equals entry of
        Inl e \<Rightarrow> Inl e
      | Inr None \<Rightarrow> Inr (same entry obj)
      | Inr (Some entry_equals) \<Rightarrow>
          (case entry_equals obj of
             Inl e \<Rightarrow> Inl e
           | Inr b \<Rightarrow> Inr (b \<or> same entry obj)))"

fun first_occurrences :: "('a \<Rightarrow> 'a \<Rightarrow> bool) \<Rightarrow> 'a list \<Rightarrow> 'a list" where
  "first_occurrences eq [] = []"
| "first_occurrences eq (x # xs) = x # first_occurrences eq (filter (\<lambda>y. \<not> eq x y) xs)"

subsection \<open>Queue.group\<close>

text \<open>
  \<open>Queue.group(fn)\<close> keeps its buckets in \<open>map\<close>, a host array used as a dictionary:
  \<open>map[key]\<close> is a property of the array, and \<open>for (var k in map)\<close> enumerates the
  array's own properties the way the host orders them: first the keys that are array
  indices (canonical decimal numerals below \<open>2^32 - 1 = 4294967295\<close>, that is, with
  fewer digits or with as many and before it as strings), in ascending numeric order,
  then every other key in the order in which the properties were created.

  The array's own properties are modelled as an association list in creation order.
  The key is the string the host converts \<open>fn(entry)\<close> to.
\<close>

definition is_digit :: "char \<Rightarrow> bool" where
  "is_digit c \<longleftrightarrow> 48 \<le> (of_char c :: nat) \<and> (of_char c :: nat) \<le> 57"

definition numeral_value :: "string \<Rightarrow> nat" where
  "numeral_value s = foldl (\<lambda>n c. 10 * n + (of_char c - 48)) 0 s"

definition array_index :: "string \<Rightarrow> nat option" where
  "array_index s =
     (if s \<noteq> [] \<and> list_all is_digit s \<and> (s = ''0'' \<or> hd s \<noteq> CHR ''0'')
         \<and> (length s < 10 \<or> (length s = 10 \<and> js_string_lt s ''4294967295''))
      then Some (numeral_value s)
      else None)"

definition is_array_index :: "string \<Rightarrow> bool" where
  "is_array_index s \<longleftrightarrow> array_index s \<noteq> None"

definition index_value :: "string \<Rightarrow> nat" where
  "index_value s = (case array_index s of None \<Rightarrow> 0 | Some i \<Rightarrow> i)"

definition for_in :: "(string \<times> 'b) list \<Rightarrow> (string \<times> 'b) list" where
  "for_in props =
     sort_key (\<lambda>p. index_value (fst p)) (filter (\<lambda>p. is_array_index (fst p)) props)
     @ filter (\<lambda>p. \<not> is_array_index (fst p)) props"

text \<open>
  One pass of the first loop: \<open>if (!map[key]) { map[key] = [] }\<close> and
  \<open>map[key].push(entry)\<close>, for a key that names no property the array already had
  when it was created.
\<close>

definition push_bucket :: "(string \<times> 'a list) list \<Rightarrow> string \<Rightarrow> 'a \<Rightarrow> (string \<times> 'a list) list" where
  "push_bucket props k entry =
     (let props = (if map_of props k = None then props @ [(k, [])] else props)
      in map (\<lambda>(k', bucket). if k' = k then (k', bucket @ [entry]) else (k', bucket)) props)"

text \<open>
  \<open>array_has\<close> tells which names an array answers to before any bucket is stored:
  \<open>length\<close> and the methods it inherits (\<open>push\<close>, \<open>constructor\<close>, ...); the set
  depends on the host's version. For such a key \<open>map[key]\<close> is not a bucket and
  \<open>map[key].push(entry)\<close> raises a TypeError. For the key \<open>__proto__\<close> the host
  neither raises nor stores a bucket: \<open>map[key]\<close> is \<open>Array.prototype\<close>, and the entry
  is pushed onto it, where every array of the process then finds it. \<open>group\<close> goes on
  and returns, in a host that is no longer the one modelled here; the model stops at
  that key with \<open>Unmodelled\<close>, and no theorem says anything of what follows.
\<close>

fun group_buckets ::
  "(string \<Rightarrow> bool) \<Rightarrow> ('a \<Rightarrow> string) \<Rightarrow> (string \<times> 'a list) list \<Rightarrow> 'a list
   \<Rightarrow> error + (string \<times> 'a list) list" where
  "group_buckets array_has fn props [] = Inr props"
| "group_buckets array_has fn props (entry # rest) =
     (let k = fn entry
      in if k = ''__proto__'' then Inl Unmodelled
         else if array_has k then Inl TypeError
         else group_buckets array_has fn (push_bucket props k entry) rest)"

definition Queue_group :: "(string \<Rightarrow> bool) \<Rightarrow> ('a \<Rightarrow> string) \<Rightarrow> 'a list \<Rightarrow> error + 'a list" where
  "Queue_group array_has fn queue =
     (case group_buckets array_has fn [] queue of
        Inl e \<Rightarrow> Inl e
      | Inr props \<Rightarrow> Inr (foldl (\<lambda>result p. result @ snd p) [] (for_in props)))"

text \<open>
  The names an empty array answers to in ECMAScript 2023, other than \<open>__proto__\<close>:
  its own \<open>length\<close> and the members of \<open>Array.prototype\<close> and \<open>Object.prototype\<close>.
  An older host has fewer of them.
\<close>

definition array_members :: "string \<Rightarrow> bool" where
  "array_members k \<longleftrightarrow> k \<in> set [''length'', ''constructor'', ''at'', ''concat'',
     ''copyWithin'', ''fill'', ''find'', ''findIndex'', ''findLast'', ''findLastIndex'',
     ''lastIndexOf'', ''pop'', ''push'', ''reverse'', ''shift'', ''unshift'', ''slice'',
     ''sort'', ''splice'', ''includes'', ''indexOf'', ''join'', ''keys'', ''entries'',
     ''values'', ''forEach'', ''filter'', ''flat'', ''flatMap'', ''map'', ''every'', ''some'',
     ''reduce'', ''reduceRight'', ''toLocaleString'', ''toString'', ''toReversed'',
     ''toSorted'', ''toSpliced'', ''with'', ''hasOwnProperty'', ''isPrototypeOf'',
     ''propertyIsEnumerable'', ''valueOf'', ''__defineGetter__'', ''__defineSetter__'',
     ''__lookupGetter__'', ''__lookupSetter__'']"

text \<open>
  The two orders of the keys of a Queue: the order of first appearance, and the order
  in which the host enumerates them.
\<close>

definition first_appearance :: "string list \<Rightarrow> string list" where
  "first_appearance ks = first_occurrences (=) ks"

definition enumeration_order :: "string list \<Rightarrow> string list" where
  "enumeration_order ks =
     sort_key index_value (filter is_array_index ks) @ filter (\<lambda>k. \<not> is_array_index k) ks"

definition grouped :: "('a \<Rightarrow> string) \<Rightarrow> string list \<Rightarrow> 'a list \<Rightarrow> 'a list" where
  "grouped fn ks queue = concat (map (\<lambda>k. filter (\<lambda>entry. fn entry = k) queue) ks)"

subsection \<open>Queue.flatten\<close>

text \<open>
  An element of a Queue is a plain entry or a Queue (\<open>entry instanceof spotify.Queue\<close>).
\<close>

datatype 'a item = Entry 'a | Queue "'a item list"

fun Queue_flatten :: "'a item list \<Rightarrow> 'a item list"
  and flatten_loop :: "'a item list \<Rightarrow> 'a item list \<Rightarrow> 'a item list" where
  "Queue_flatten queue = flatten_loop [] queue"
| "flatten_loop result [] = result"
| "flatten_loop result (Queue q # rest) = flatten_loop (result @ Queue_flatten q) rest"
| "flatten_loop result (Entry x # rest) = flatten_loop (result @ [Entry x]) rest"

text \<open>The plain entries under a list of elements, depth first from left to right.\<close>

fun leaves :: "'a item list \<Rightarrow> 'a list" where
  "leaves [] = []"
| "leaves (Entry x # rest) = x # leaves rest"
| "leaves (Queue q # rest) = leaves q @ leaves rest"

fun is_Queue :: "'a item \<Rightarrow> bool" where
  "is_Queue (Queue q) = True"
| "is_Queue (Entry x) = False"

subsection \<open>Promises and Queue.resolveAll\<close>

text \<open>
  A promise is modelled by the computation that settles it: from the state of the
  world when the computation starts to the outcome (\<open>Inl\<close> a rejection, \<open>Inr\<close> a
  value) and the state of the world when it is settled. The host runs one callback
  at a time, and the callback passed to \<open>then\<close> runs after the promise it is attached
  to has been fulfilled, and never when it has been rejected.
\<close>

type_synonym ('s, 'e, 'a) promise = "'s \<Rightarrow> ('e + 'a) \<times> 's"

definition Promise_resolve :: "'a \<Rightarrow> ('s, 'e, 'a) promise" where
  "Promise_resolve v = (\<lambda>s. (Inr v, s))"

definition Promise_reject :: "'e \<Rightarrow> ('s, 'e, 'a) promise" where
  "Promise_reject e = (\<lambda>s. (Inl e, s))"

definition Promise_then ::
  "('s, 'e, 'a) promise \<Rightarrow> ('a \<Rightarrow> ('s, 'e, 'b) promise) \<Rightarrow> ('s, 'e, 'b) promise" where
  "Promise_then p f =
     (\<lambda>s. case p s of
             (Inl e, s') \<Rightarrow> (Inl e, s')
           | (Inr v, s') \<Rightarrow> f v s')"

text \<open>
  \<open>Queue.resolveAll(fn)\<close>. The local Queue \<open>result\<close> is a second component of the
  state while the chain \<open>ready\<close> runs: \<open>fn(entry)\<close> works on the world, and
  \<open>result.add(value)\<close> on \<open>result\<close>.
\<close>

definition on_world :: "('s, 'e, 'a) promise \<Rightarrow> ('s \<times> 'r, 'e, 'a) promise" where
  "on_world p = (\<lambda>(s, result). case p s of (r, s') \<Rightarrow> (r, (s', result)))"

definition result_add :: "'b \<Rightarrow> ('s \<times> 'b list, 'e, unit) promise" where
  "result_add v = (\<lambda>(s, result). (Inr (), (s, Queue_add result v)))"

definition Queue_resolveAll ::
  "('a \<Rightarrow> ('s, 'e, 'b) promise) \<Rightarrow> 'a list \<Rightarrow> ('s, 'e, 'b list) promise" where
  "Queue_resolveAll fn queue =
     (\<lambda>s. let ready = foldl (\<lambda>ready entry.
                          Promise_then (Promise_then ready (\<lambda>_. on_world (fn entry)))
                            (\<lambda>v. result_add v))
                        (Promise_resolve ()) queue
          in case Promise_then ready (\<lambda>_ (s', result). (Inr result, (s', result))) (s, []) of
               (r, (s', result)) \<Rightarrow> (r, s'))"

text \<open>\<open>Queue.dispatch()\<close>, for elements whose \<open>dispatch\<close> method is \<open>dispatch\<close>.\<close>

definition Queue_dispatch ::
  "('a \<Rightarrow> ('s, 'e, 'b) promise) \<Rightarrow> 'a list \<Rightarrow> ('s, 'e, 'b list) promise" where
  "Queue_dispatch dispatch queue = Queue_resolveAll (\<lambda>entry. dispatch entry) queue"

text \<open>
  A resolver that also records, in a log kept beside the world, each element it is
  invoked on together with the outcome of the invocation.
\<close>

definition recorded ::
  "('a \<Rightarrow> ('s, 'e, 'b) promise) \<Rightarrow> 'a \<Rightarrow> ('s \<times> ('a \<times> ('e + 'b)) list, 'e, 'b) promise" where
  "recorded fn entry =
     (\<lambda>(s, log). case fn entry s of (r, s') \<Rightarrow> (r, (s', log @ [(entry, r)])))"


text \<open>
  What \<open>resolveAll\<close> is said to do: invoke \<open>fn\<close> on the elements one at a time, each
  invocation starting in the world the previous one left; collect the values in the
  order of the elements; stop at the first rejection, with that rejection and
  without the values collected so far.
\<close>
fun one_at_a_time :: "('a \<Rightarrow> ('s, 'e, 'b) promise) \<Rightarrow> 'a list \<Rightarrow> ('s, 'e, 'b list) promise" where
  "one_at_a_time fn [] s = (Inr [], s)"
| "one_at_a_time fn (entry # rest) s =
     (case fn entry s of
        (Inl e, s') \<Rightarrow> (Inl e, s')
      | (Inr v, s') \<Rightarrow>
          (case one_at_a_time fn rest s' of
             (Inl e, s'') \<Rightarrow> (Inl e, s'')
           | (Inr vs, s'') \<Rightarrow> (Inr (v # vs), s'')))"

text \<open>
  The chain \<open>ready\<close> after the loop of \<open>resolveAll\<close>, as one computation on the world
  and \<open>result\<close>.
\<close>

fun chain_outcome ::
  "('a \<Rightarrow> ('s, 'e, 'b) promise) \<Rightarrow> 'a list \<Rightarrow> ('s \<times> 'b list, 'e, unit) promise" where
  "chain_outcome fn [] (s, result) = (Inr (), (s, result))"
| "chain_outcome fn (entry # rest) (s, result) =
     (case fn entry s of
        (Inl e, s') \<Rightarrow> (Inl e, (s', result))
      | (Inr v, s') \<Rightarrow> chain_outcome fn rest (s', result @ [v]))"

text \<open>The bucket stored under a key, empty when there is none.\<close>

definition bucket_of :: "(string \<times> 'a list) list \<Rightarrow> string \<Rightarrow> 'a list" where
  "bucket_of props k = (case map_of props k of None \<Rightarrow> [] | Some b \<Rightarrow> b)"

section \<open>Host operations on strings and values\<close>

text \<open>\<open>String.prototype.trim\<close> and \<open>toLowerCase\<close>, on code units below 256.\<close>

definition is_whitespace :: "char \<Rightarrow> bool" where
  "is_whitespace c \<longleftrightarrow> (of_char c :: nat) \<in> set [9, 10, 11, 12, 13, 32, 160]"

definition trim :: "string \<Rightarrow> string" where
  "trim str = rev (dropWhile is_whitespace (rev (dropWhile is_whitespace str)))"

definition lower_char :: "char \<Rightarrow> char" where
  "lower_char c =
     (let n = (of_char c :: nat)
      in if (65 \<le> n \<and> n \<le> 90) \<or> (192 \<le> n \<and> n \<le> 222 \<and> n \<noteq> 215)
         then char_of (n + 32) else c)"

definition toLowerCase :: "string \<Rightarrow> string" where
  "toLowerCase str = map lower_char str"

text \<open>
  A match of a regular expression \<open>/^literal/i\<close>: the string starts with the literal,
  letters compared without regard to case. Without the \<open>u\<close> flag the host lets no
  code unit above 127 match an ASCII letter.
\<close>

definition ascii_lower :: "char \<Rightarrow> char" where
  "ascii_lower c =
     (let n = (of_char c :: nat) in if 65 \<le> n \<and> n \<le> 90 then char_of (n + 32) else c)"

definition starts_with_ci :: "string \<Rightarrow> string \<Rightarrow> bool" where
  "starts_with_ci literal str \<longleftrightarrow>
     map ascii_lower (take (length literal) str) = map ascii_lower literal"

text \<open>\<open>encodeURIComponent\<close>: every code unit but the unreserved ones becomes the
  \<open>%XX\<close> escapes of its UTF-8 bytes.\<close>

definition hex_digit :: "nat \<Rightarrow> char" where
  "hex_digit n = ''0123456789ABCDEF'' ! (n mod 16)"

definition percent :: "nat \<Rightarrow> string" where
  "percent byte = [CHR ''%'', hex_digit (byte div 16), hex_digit (byte mod 16)]"

definition is_unreserved :: "char \<Rightarrow> bool" where
  "is_unreserved c \<longleftrightarrow>
     (let n = (of_char c :: nat)
      in (65 \<le> n \<and> n \<le> 90) \<or> (97 \<le> n \<and> n \<le> 122) \<or> (48 \<le> n \<and> n \<le> 57)
         \<or> c \<in> set ''-_.!~*'()'')"

definition encode_char :: "char \<Rightarrow> string" where
  "encode_char c =
     (let n = (of_char c :: nat)
      in if is_unreserved c then [c]
         else if n < 128 then percent n
         else percent (192 + n div 64) @ percent (128 + n mod 64))"

definition encodeURIComponent :: "string \<Rightarrow> string" where
  "encodeURIComponent str = concat (map encode_char str)"

text \<open>Truthiness, and the host's conversion of a value to a string.\<close>

fun truthy :: "json \<Rightarrow> bool" where
  "truthy JUndefined = False"
| "truthy JNull = False"
| "truthy (JBool b) = b"
| "truthy (JNum n) = (n \<noteq> 0)"
| "truthy JNaN = False"
| "truthy (JStr s) = (s \<noteq> [])"
| "truthy (JArr xs) = True"
| "truthy (JObj props) = True"

fun join :: "string \<Rightarrow> string list \<Rightarrow> string" where
  "join sep [] = []"
| "join sep [s] = s"
| "join sep (s # t # rest) = s @ sep @ join sep (t # rest)"

fun ToString :: "json \<Rightarrow> string" where
  "ToString JUndefined = ''undefined''"
| "ToString JNull = ''null''"
| "ToString (JBool b) = (if b then ''true'' else ''false'')"
| "ToString (JNum n) = Number_toString n"
| "ToString JNaN = ''NaN''"
| "ToString (JStr s) = s"
| "ToString (JArr xs) =
     join '','' (map (\<lambda>x. if x = JUndefined \<or> x = JNull then [] else ToString x) xs)"
| "ToString (JObj props) = ''[object Object]''"

text \<open>
  A property read \<open>v.k\<close> or \<open>v[k]\<close>, for the names the program reads. On \<open>undefined\<close>
  and \<open>null\<close> the host raises a TypeError. \<open>get\<close> is the read where the program has
  checked before that the value is truthy.
\<close>

fun member :: "json \<Rightarrow> string \<Rightarrow> error + json" where
  "member JUndefined k = Inl TypeError"
| "member JNull k = Inl TypeError"
| "member (JObj props) k = Inr (case map_of props k of None \<Rightarrow> JUndefined | Some v \<Rightarrow> v)"
| "member (JArr xs) k =
     Inr (case array_index k of
            Some i \<Rightarrow> if i < length xs then xs ! i else JUndefined
          | None \<Rightarrow> if k = ''length'' then JNum (int (length xs)) else JUndefined)"
| "member (JStr s) k =
     Inr (case array_index k of
            Some i \<Rightarrow> if i < length s then JStr [s ! i] else JUndefined
          | None \<Rightarrow> if k = ''length'' then JNum (int (length s)) else JUndefined)"
| "member (JBool b) k = Inr JUndefined"
| "member (JNum n) k = Inr JUndefined"
| "member JNaN k = Inr JUndefined"

definition get :: "json \<Rightarrow> string \<Rightarrow> json" where
  "get v k = (case member v k of Inl e \<Rightarrow> JUndefined | Inr w \<Rightarrow> w)"

text \<open>The read of a path \<open>v.k1.k2...\<close>, and the host's \<open>a && b\<close>.\<close>

fun path :: "json \<Rightarrow> string list \<Rightarrow> error + json" where
  "path v [] = Inr v"
| "path v (k # ks) = (case member v k of Inl e \<Rightarrow> Inl e | Inr w \<Rightarrow> path w ks)"

definition js_and :: "error + json \<Rightarrow> error + json \<Rightarrow> error + json" where
  "js_and a b = (case a of Inl e \<Rightarrow> Inl e | Inr v \<Rightarrow> if truthy v then b else Inr v)"

text \<open>
  The values \<open>for (var i in xs)\<close> visits as \<open>xs[i]\<close>: the elements of an array, the
  property values of an object in the host's enumeration order, the characters of a
  string, and nothing for any other value (also for \<open>undefined\<close> and \<open>null\<close>).
\<close>

fun for_in_values :: "json \<Rightarrow> json list" where
  "for_in_values (JArr xs) = xs"
| "for_in_values (JObj props) = map snd (for_in props)"
| "for_in_values (JStr s) = map (\<lambda>c. JStr [c]) s"
| "for_in_values v = []"

section \<open>spotify.request and the remote API\<close>

text \<open>
  The world the program runs in: what the remote API answers, the requests made so
  far, and the property \<open>albumResponse\<close> of the host's global object. \<open>respond\<close> gives,
  for the requests made before and a URL, what the HTTP exchange and \<open>JSON.parse\<close>
  end in: a rejection (transport error, status code other than 200, parse error) or
  the parsed body. The delay of 100 ms and the console output are not modelled.
\<close>

record world =
  respond :: "string list \<Rightarrow> string \<Rightarrow> error + json"
  requests :: "string list"
  global_albumResponse :: json

text \<open>
  \<open>spotify.request(url)\<close>. A body with a truthy \<open>error\<close> is a rejection. On a body
  that is \<open>null\<close> the read \<open>body.error\<close> raises outside the promise, which is never
  settled: \<open>Unmodelled\<close>.
\<close>

definition request :: "string \<Rightarrow> (world, error, json) promise" where
  "request url w =
     (let w' = w\<lparr>requests := requests w @ [url]\<rparr>
      in case respond w (requests w) url of
           Inl e \<Rightarrow> (Inl e, w')
         | Inr body \<Rightarrow>
             (case member body ''error'' of
                Inl e \<Rightarrow> (Inl Unmodelled, w')
              | Inr err \<Rightarrow> if truthy err then (Inl (Reason body), w') else (Inr body, w')))"

section \<open>spotify.js: Track\<close>

record track =
  Track_entry :: string
  Track_responseSimple :: json
  Track_response :: json
  Track_lastfmResponse :: json

definition Track_isURI :: "string \<Rightarrow> bool" where
  "Track_isURI str = starts_with_ci ''spotify:track:'' str"

definition Track_isLink :: "string \<Rightarrow> bool" where
  "Track_isLink str \<longleftrightarrow>
     starts_with_ci ''http://open.spotify.com/track/'' str \<or>
     starts_with_ci ''https://open.spotify.com/track/'' str"

definition Track_isFullResponse :: "json \<Rightarrow> json" where
  "Track_isFullResponse response =
     (if truthy response then get response ''popularity'' else response)"

text \<open>The constructor \<open>new spotify.Track(entry, response)\<close>; \<open>response\<close> is
  \<open>JUndefined\<close> when the argument is left out.\<close>

definition Track :: "string \<Rightarrow> json \<Rightarrow> track" where
  "Track entry response =
     (let self = \<lparr>Track_entry = trim entry, Track_responseSimple = JNull,
                   Track_response = JNull, Track_lastfmResponse = JUndefined\<rparr>
      in if truthy (Track_isFullResponse response)
         then self\<lparr>Track_response := response\<rparr>
         else self\<lparr>Track_responseSimple := response\<rparr>)"

definition Track_id :: "track \<Rightarrow> json" where
  "Track_id self =
     (if truthy (Track_response self) \<and> truthy (get (Track_response self) ''id'')
      then get (Track_response self) ''id''
      else if truthy (Track_responseSimple self) \<and> truthy (get (Track_responseSimple self) ''id'')
      then get (Track_responseSimple self) ''id''
      else if Track_isURI (Track_entry self) then JStr (drop 14 (Track_entry self))
      else if Track_isLink (Track_entry self) then JStr (drop 30 (Track_entry self))
      else JNum (- 1))"

definition Track_uri :: "track \<Rightarrow> json" where
  "Track_uri self =
     (if truthy (Track_response self) then get (Track_response self) ''uri''
      else if truthy (Track_responseSimple self) then get (Track_responseSimple self) ''uri''
      else JStr '''')"

definition Track_popularity :: "track \<Rightarrow> json" where
  "Track_popularity self =
     (if truthy (Track_response self) then get (Track_response self) ''popularity''
      else JNum (- 1))"

text \<open>\<open>self.response || self.responseSimple\<close>.\<close>

definition Track_either_response :: "track \<Rightarrow> json" where
  "Track_either_response self =
     (if truthy (Track_response self) then Track_response self else Track_responseSimple self)"

text \<open>
  \<open>artist()\<close> and \<open>title()\<close> return what the response holds; \<open>artist\<close> calls \<open>trim\<close>
  on the name, which raises a TypeError when the name is not a string.
\<close>

definition Track_artist :: "track \<Rightarrow> error + json" where
  "Track_artist self =
     (let response = Track_either_response self
      in case js_and (js_and (js_and (Inr response) (path response [''artists'']))
                        (path response [''artists'', ''0'']))
                (path response [''artists'', ''0'', ''name'']) of
           Inl e \<Rightarrow> Inl e
         | Inr v \<Rightarrow>
             if truthy v
             then (case v of JStr s \<Rightarrow> Inr (JStr (trim s)) | _ \<Rightarrow> Inl TypeError)
             else Inr (JStr ''''))"

definition Track_title :: "track \<Rightarrow> json" where
  "Track_title self =
     (let response = Track_either_response self
      in if truthy response \<and> truthy (get response ''name'')
         then get response ''name'' else JStr '''')"

definition Track_album :: "track \<Rightarrow> json" where
  "Track_album self =
     (if truthy (Track_response self) \<and> truthy (get (Track_response self) ''album'')
         \<and> truthy (get (get (Track_response self) ''album'') ''name'')
      then get (get (Track_response self) ''album'') ''name''
      else JStr '''')"

text \<open>
  \<open>name()\<close>: \<open>title + ' - ' + artist\<close> is the host's \<open>+\<close> with a string, which
  converts the other operand to a string.
\<close>

definition Track_name :: "track \<Rightarrow> error + json" where
  "Track_name self =
     (let title = Track_title self
      in if title \<noteq> JStr ''''
         then (case Track_artist self of
                 Inl e \<Rightarrow> Inl e
               | Inr artist \<Rightarrow>
                   if artist \<noteq> JStr ''''
                   then Inr (JStr (ToString title @ '' - '' @ ToString artist))
                   else Inr title)
         else Inr (JStr ''''))"

definition Track_toString :: "track \<Rightarrow> error + json" where
  "Track_toString self =
     (case Track_name self of
        Inl e \<Rightarrow> Inl e
      | Inr name \<Rightarrow> if name \<noteq> JStr '''' then Inr name else Inr (JStr (Track_entry self)))"

text \<open>
  \<open>parseInt(v)\<close> with no radix: the string conversion of the value, leading white
  space skipped, an optional sign, \<open>0x\<close> for base 16, then the longest run of digits;
  not-a-number when that run is empty. The result is the exact integer: the host
  rounds a result beyond \<open>2^53\<close> to the nearest number it can represent, which is
  not modelled.
\<close>

definition digit_value :: "char \<Rightarrow> nat" where
  "digit_value c =
     (let n = (of_char c :: nat)
      in if 48 \<le> n \<and> n \<le> 57 then n - 48
         else if 97 \<le> n \<and> n \<le> 102 then n - 87
         else if 65 \<le> n \<and> n \<le> 70 then n - 55
         else 16)"

definition parseInt :: "json \<Rightarrow> json" where
  "parseInt v =
     (let s = dropWhile is_whitespace (ToString v);
          negative = (take 1 s = ''-'');
          s = (if take 1 s = ''-'' \<or> take 1 s = ''+'' then drop 1 s else s);
          radix = (if map ascii_lower (take 2 s) = ''0x'' then 16 else 10);
          s = (if radix = 16 then drop 2 s else s);
          digits = takeWhile (\<lambda>c. digit_value c < radix) s;
          n = foldl (\<lambda>n c. radix * n + digit_value c) 0 digits
      in if digits = [] then JNaN
         else JNum (if negative then - int n else int n))"

definition Track_lastfm :: "track \<Rightarrow> error + json" where
  "Track_lastfm self =
     (if truthy (Track_lastfmResponse self)
      then (case path (Track_lastfmResponse self) [''track'', ''playcount''] of
              Inl e \<Rightarrow> Inl e
            | Inr playcount \<Rightarrow> Inr (parseInt playcount))
      else Inr (JNum (- 1)))"

section \<open>spotify.js: the entries of a Queue\<close>

record album =
  Album_entry :: string
  Album_searchResponse :: json
  Album_albumResponse :: json

record artist =
  Artist_entry :: string
  Artist_artistResponse :: json

text \<open>
  What a slot of a Queue of the playlist can hold: a Track, an Album, an Artist, or
  \<open>undefined\<close> (what a promise is fulfilled with when its callback returns nothing).
  Nested Queues are the \<open>Queue\<close> items.
\<close>

datatype entry = Undefined | TrackE track | AlbumE album | ArtistE artist

text \<open>
  A method of an object runs on the object and the world. \<open>with_self\<close> is a promise
  that works on the world alone, seen from the method.
\<close>

definition with_self :: "(world, 'e, 'a) promise \<Rightarrow> ('o \<times> world, 'e, 'a) promise" where
  "with_self p = (\<lambda>(self, w). case p w of (r, w') \<Rightarrow> (r, (self, w')))"

subsection \<open>Track: resolution\<close>

definition Track_fetchTrack :: "(track \<times> world, error, entry) promise" where
  "Track_fetchTrack =
     (\<lambda>(self, w).
        let id = Track_id self;
            url = ''https://api.spotify.com/v1/tracks/'' @ encodeURIComponent (ToString id)
        in Promise_then (with_self (request url))
             (\<lambda>result (self, w).
                let self = self\<lparr>Track_response := result\<rparr>
                in (Inr (TrackE self), (self, w)))
             (self, w))"

definition Track_searchForTrack :: "string \<Rightarrow> (track \<times> world, error, entry) promise" where
  "Track_searchForTrack query =
     (\<lambda>(self, w).
        let url = ''https://api.spotify.com/v1/search?type=track&q='' @ encodeURIComponent query
        in Promise_then (with_self (request url))
             (\<lambda>result (self, w).
                case js_and (js_and (path result [''tracks''])
                               (path result [''tracks'', ''items'', ''0'']))
                       (path result [''tracks'', ''items'', ''0'', ''uri'']) of
                  Inl e \<Rightarrow> (Inl e, (self, w))
                | Inr found \<Rightarrow>
                    if truthy found
                    then (let self = self\<lparr>Track_responseSimple :=
                                        get (get (get result ''tracks'') ''items'') ''0''\<rparr>
                          in (Inr (TrackE self), (self, w)))
                    else (Inr Undefined, (self, w)))
             (self, w))"

definition Track_dispatch :: "(track \<times> world, error, entry) promise" where
  "Track_dispatch =
     (\<lambda>(self, w).
        if truthy (Track_response self) then Promise_resolve (TrackE self) (self, w)
        else if truthy (Track_responseSimple self) then Track_fetchTrack (self, w)
        else if Track_isURI (Track_entry self) then Track_fetchTrack (self, w)
        else Track_searchForTrack (Track_entry self) (self, w))"

subsection \<open>Album\<close>

definition Album_isSearchResponse :: "json \<Rightarrow> error + json" where
  "Album_isSearchResponse response =
     js_and (js_and (js_and (Inr response) (path response [''albums'']))
               (path response [''albums'', ''items'', ''0'']))
       (path response [''albums'', ''items'', ''0'', ''id''])"

definition Album_isAlbumResponse :: "json \<Rightarrow> error + json" where
  "Album_isAlbumResponse response = js_and (Inr response) (path response [''id''])"

text \<open>
  The constructor \<open>new spotify.Album(entry, response)\<close>. It raises when
  \<open>isSearchResponse\<close> does. The two responses are \<open>undefined\<close> until assigned.
\<close>

definition Album :: "string \<Rightarrow> json \<Rightarrow> error + album" where
  "Album entry response =
     (let self = \<lparr>Album_entry = trim entry, Album_searchResponse = JUndefined,
                   Album_albumResponse = JUndefined\<rparr>
      in case Album_isSearchResponse response of
           Inl e \<Rightarrow> Inl e
         | Inr s \<Rightarrow>
             if truthy s then Inr (self\<lparr>Album_searchResponse := response\<rparr>)
             else (case Album_isAlbumResponse response of
                     Inl e \<Rightarrow> Inl e
                   | Inr a \<Rightarrow>
                       if truthy a then Inr (self\<lparr>Album_albumResponse := response\<rparr>)
                       else Inr self))"

definition Album_id :: "album \<Rightarrow> json" where
  "Album_id self =
     (if truthy (Album_albumResponse self) \<and> truthy (get (Album_albumResponse self) ''id'')
      then get (Album_albumResponse self) ''id''
      else if truthy (Album_searchResponse self)
            \<and> truthy (get (Album_searchResponse self) ''albums'')
            \<and> truthy (get (get (Album_searchResponse self) ''albums'') ''items'')
            \<and> truthy (get (get (get (Album_searchResponse self) ''albums'') ''items'') ''0'')
            \<and> truthy (get (get (get (get (Album_searchResponse self) ''albums'') ''items'') ''0'')
                         ''id'')
      then get (get (get (get (Album_searchResponse self) ''albums'') ''items'') ''0'') ''id''
      else JNum (- 1))"

definition Album_searchForAlbum :: "string \<Rightarrow> (album \<times> world, error, json) promise" where
  "Album_searchForAlbum query =
     (\<lambda>(self, w).
        let url = ''https://api.spotify.com/v1/search?type=album&q='' @ encodeURIComponent query
        in Promise_then (with_self (request url))
             (\<lambda>response (self, w).
                case Album_isSearchResponse response of
                  Inl e \<Rightarrow> (Inl e, (self, w))
                | Inr s \<Rightarrow>
                    if truthy s
                    then (Inr response, (self\<lparr>Album_searchResponse := response\<rparr>, w))
                    else (Inl (Reason response), (self, w)))
             (self, w))"

text \<open>
  \<open>fetchAlbum\<close>. In its callback the assignment is \<open>this.albumResponse = response\<close>,
  and \<open>this\<close> there is the host's global object, not the album: the album is left
  as it was.
\<close>

definition Album_fetchAlbum :: "(album \<times> world, error, json) promise" where
  "Album_fetchAlbum =
     (\<lambda>(self, w).
        let id = Album_id self;
            url = ''https://api.spotify.com/v1/albums/'' @ encodeURIComponent (ToString id)
        in Promise_then (with_self (request url))
             (\<lambda>response (self, w).
                case Album_isAlbumResponse response of
                  Inl e \<Rightarrow> (Inl e, (self, w))
                | Inr a \<Rightarrow>
                    if truthy a
                    then (Inr response, (self, w\<lparr>global_albumResponse := response\<rparr>))
                    else (Inl (Reason response), (self, w)))
             (self, w))"

definition Album_createQueue :: "album \<Rightarrow> json \<Rightarrow> error + entry item" where
  "Album_createQueue self response =
     (case path response [''tracks'', ''items''] of
        Inl e \<Rightarrow> Inl e
      | Inr tracks \<Rightarrow>
          Inr (Queue (foldl (\<lambda>queue t. Queue_add queue (Entry (TrackE (Track (Album_entry self) t))))
                        [] (for_in_values tracks))))"

definition Album_dispatch :: "(album \<times> world, error, entry item) promise" where
  "Album_dispatch =
     (\<lambda>(self, w).
        if truthy (Album_searchResponse self)
        then Promise_then Album_fetchAlbum
               (\<lambda>response (self, w). (Album_createQueue self response, (self, w))) (self, w)
        else if truthy (Album_albumResponse self)
        then Promise_then Album_fetchAlbum
               (\<lambda>response (self, w). (Album_createQueue self response, (self, w))) (self, w)
        else Promise_then
               (Promise_then (Album_searchForAlbum (Album_entry self)) (\<lambda>response. Album_fetchAlbum))
               (\<lambda>response (self, w). (Album_createQueue self response, (self, w))) (self, w))"

subsection \<open>Artist\<close>

definition Artist :: "string \<Rightarrow> artist" where
  "Artist entry = \<lparr>Artist_entry = trim entry, Artist_artistResponse = JNull\<rparr>"

definition Artist_isSearchResponse :: "json \<Rightarrow> error + json" where
  "Artist_isSearchResponse response =
     js_and (js_and (js_and (Inr response) (path response [''artists'']))
               (path response [''artists'', ''items'', ''0'']))
       (path response [''artists'', ''items'', ''0'', ''id''])"

definition Artist_id :: "artist \<Rightarrow> error + json" where
  "Artist_id self =
     (case Artist_isSearchResponse (Artist_artistResponse self) of
        Inl e \<Rightarrow> Inl e
      | Inr found \<Rightarrow> if truthy found then Inr found else Inr (JNum (- 1)))"

definition Artist_searchForArtist :: "string \<Rightarrow> (artist \<times> world, error, json) promise" where
  "Artist_searchForArtist query =
     (\<lambda>(self, w).
        let url = ''https://api.spotify.com/v1/search?type=artist&q='' @ encodeURIComponent query
        in Promise_then (with_self (request url))
             (\<lambda>response (self, w).
                case Artist_isSearchResponse response of
                  Inl e \<Rightarrow> (Inl e, (self, w))
                | Inr s \<Rightarrow>
                    if truthy s
                    then (Inr response, (self\<lparr>Artist_artistResponse := response\<rparr>, w))
                    else (Inl (Reason response), (self, w)))
             (self, w))"

definition Artist_fetchAlbums :: "(artist \<times> world, error, json) promise" where
  "Artist_fetchAlbums =
     (\<lambda>(self, w).
        case Artist_id self of
          Inl e \<Rightarrow> (Inl e, (self, w))
        | Inr found \<Rightarrow>
            (let id = found;
                 url = ''https://api.spotify.com/v1/artists/'' @ encodeURIComponent (ToString id)
                         @ ''/albums''
             in Promise_then (with_self (request url))
                  (\<lambda>response (self, w).
                     if truthy (get response ''items'')
                     then (Inr response, (self, w\<lparr>global_albumResponse := response\<rparr>))
                     else (Inl (Reason response), (self, w)))
                  (self, w)))"

text \<open>
  \<open>Artist.createQueue\<close>: the loop that builds the Queue of Albums (and raises when
  the Album constructor does), then \<open>queue.dispatch()\<close>.
\<close>

fun Artist_albums :: "string \<Rightarrow> album list \<Rightarrow> json list \<Rightarrow> error + album list" where
  "Artist_albums entry queue [] = Inr queue"
| "Artist_albums entry queue (a # rest) =
     (case Album entry a of
        Inl e \<Rightarrow> Inl e
      | Inr al \<Rightarrow> Artist_albums entry (Queue_add queue al) rest)"

definition Artist_createQueue :: "json \<Rightarrow> (artist \<times> world, error, entry item) promise" where
  "Artist_createQueue response =
     (\<lambda>(self, w).
        case Artist_albums (Artist_entry self) [] (for_in_values (get response ''items'')) of
          Inl e \<Rightarrow> (Inl e, (self, w))
        | Inr queue \<Rightarrow>
            (case Queue_dispatch
                    (\<lambda>al w. case Album_dispatch (al, w) of (r, (al', w')) \<Rightarrow> (r, w'))
                    queue w of
               (Inl e, w') \<Rightarrow> (Inl e, (self, w'))
             | (Inr result, w') \<Rightarrow> (Inr (Queue result), (self, w'))))"

definition Artist_dispatch :: "(artist \<times> world, error, entry item) promise" where
  "Artist_dispatch =
     (\<lambda>(self, w).
        Promise_then
          (Promise_then (Artist_searchForArtist (Artist_entry self)) (\<lambda>response. Artist_fetchAlbums))
          Artist_createQueue (self, w))"

subsection \<open>Dispatch of the elements of a Queue, and the playlist\<close>

text \<open>
  \<open>entry.dispatch()\<close> as \<open>Queue.dispatch\<close> calls it on an element: the method of the
  element's class, a TypeError on \<open>undefined\<close>. The promise is fulfilled with what
  takes the element's slot in the Queue of results; the world is what is left when
  it is settled.
\<close>

fun entry_dispatch :: "entry \<Rightarrow> (world, error, entry item) promise" where
  "entry_dispatch Undefined = Promise_reject TypeError"
| "entry_dispatch (TrackE t) =
     (\<lambda>w. case Track_dispatch (t, w) of
             (Inl e, (t', w')) \<Rightarrow> (Inl e, w')
           | (Inr v, (t', w')) \<Rightarrow> (Inr (Entry v), w'))"
| "entry_dispatch (AlbumE al) =
     (\<lambda>w. case Album_dispatch (al, w) of (r, (al', w')) \<Rightarrow> (r, w'))"
| "entry_dispatch (ArtistE ar) =
     (\<lambda>w. case Artist_dispatch (ar, w) of (r, (ar', w')) \<Rightarrow> (r, w'))"

text \<open>\<open>Playlist.fetchTracks\<close>: the entries are dispatched and the result flattened.\<close>

definition Playlist_fetchTracks :: "entry list \<Rightarrow> (world, error, entry item list) promise" where
  "Playlist_fetchTracks entries =
     Promise_then (Queue_dispatch entry_dispatch entries)
       (\<lambda>result. Promise_resolve (Queue_flatten result))"

text \<open>
  The methods \<open>Playlist.toString\<close> calls on an element: \<open>toString\<close> (the Track's own,
  the host's \<open>[object Object]\<close> for the other objects), \<open>lastfm\<close> and \<open>uri\<close>, which
  only a Track has. A call on \<open>undefined\<close>, or of a method the element does not
  have, raises a TypeError.
\<close>

fun item_toString :: "entry item \<Rightarrow> error + json" where
  "item_toString (Entry Undefined) = Inl TypeError"
| "item_toString (Entry (TrackE t)) = Track_toString t"
| "item_toString other = Inr (JStr ''[object Object]'')"

fun item_lastfm :: "entry item \<Rightarrow> error + json" where
  "item_lastfm (Entry (TrackE t)) = Track_lastfm t"
| "item_lastfm other = Inl TypeError"

fun item_uri :: "entry item \<Rightarrow> error + json" where
  "item_uri (Entry (TrackE t)) = Inr (Track_uri t)"
| "item_uri other = Inl TypeError"

fun toString_loop :: "string \<Rightarrow> entry item list \<Rightarrow> error + string" where
  "toString_loop result [] = Inr result"
| "toString_loop result (t # rest) =
     (case item_toString t of
        Inl e \<Rightarrow> Inl e
      | Inr logged \<Rightarrow>
          (case item_lastfm t of
             Inl e \<Rightarrow> Inl e
           | Inr logged' \<Rightarrow>
               (case item_uri t of
                  Inl e \<Rightarrow> Inl e
                | Inr uri \<Rightarrow>
                    if uri \<noteq> JStr '''' then toString_loop (result @ ToString uri @ [CHR 0x0A]) rest
                    else toString_loop result rest)))"

definition Playlist_toString :: "entry item list \<Rightarrow> error + string" where
  "Playlist_toString entries =
     (case toString_loop [] entries of Inl e \<Rightarrow> Inl e | Inr result \<Rightarrow> Inr (trim result))"

text \<open>
  \<open>Track.equals(track)\<close>: both \<open>toString()\<close> results in lower case, the Track's own
  first. The call of \<open>toString\<close> raises on an argument that is \<open>undefined\<close>, and
  \<open>toLowerCase\<close> on a result that is not a string.
\<close>

definition String_toLowerCase :: "json \<Rightarrow> error + string" where
  "String_toLowerCase v = (case v of JStr s \<Rightarrow> Inr (toLowerCase s) | _ \<Rightarrow> Inl TypeError)"

definition Track_equals :: "track \<Rightarrow> entry item \<Rightarrow> error + bool" where
  "Track_equals self other =
     (case Track_toString self of
        Inl e \<Rightarrow> Inl e
      | Inr v1 \<Rightarrow>
          (case String_toLowerCase v1 of
             Inl e \<Rightarrow> Inl e
           | Inr str1 \<Rightarrow>
               (case item_toString other of
                  Inl e \<Rightarrow> Inl e
                | Inr v2 \<Rightarrow>
                    (case String_toLowerCase v2 of
                       Inl e \<Rightarrow> Inl e
                     | Inr str2 \<Rightarrow> Inr (str1 = str2)))))"

text \<open>
  An element of a Queue as \<open>contains\<close> sees it: a reference, modelled by the address
  of the object beside its state. \<open>undefined\<close> is a value and not an object: it has
  no property to read, and two of them are identical.
\<close>

type_synonym slot = "nat \<times> entry item"

fun slot_equals :: "slot \<Rightarrow> error + (slot \<Rightarrow> error + bool) option" where
  "slot_equals (a, Entry Undefined) = Inl TypeError"
| "slot_equals (a, Entry (TrackE t)) = Inr (Some (\<lambda>obj. Track_equals t (snd obj)))"
| "slot_equals (a, other) = Inr None"

fun slot_same :: "slot \<Rightarrow> slot \<Rightarrow> bool" where
  "slot_same (a, Entry Undefined) (b, Entry Undefined) = True"
| "slot_same (a, Entry Undefined) (b, y) = False"
| "slot_same (a, x) (b, Entry Undefined) = False"
| "slot_same (a, x) (b, y) = (a = b)"

text \<open>
  The elements as the host's sort and its \<open><\<close> see them. An object is converted to
  a primitive by its \<open>toString()\<close> (\<open>valueOf\<close> gives the object back); the conversion
  raises when \<open>toString\<close> does or returns an object. \<open>item_string\<close> and \<open>item_lt\<close>
  are the conversion to a string and \<open><\<close> on the elements whose conversion returns;
  on the others the host's sort and its \<open><\<close> raise, and the two functions, which
  are total, say nothing of the host. \<open>item_lt\<close> is, on two strings, the order of the
  strings, on numbers, booleans and \<open>null\<close> the order of their numbers, and false
  when a side is \<open>undefined\<close> or not a number; a string against a number, which the
  host reads as a number first, is outside the model and taken as false.
\<close>

fun item_is_undefined :: "entry item \<Rightarrow> bool" where
  "item_is_undefined (Entry Undefined) = True"
| "item_is_undefined other = False"

fun item_ToPrimitive :: "entry item \<Rightarrow> error + json" where
  "item_ToPrimitive (Entry Undefined) = Inr JUndefined"
| "item_ToPrimitive (Entry (TrackE t)) =
     (case Track_toString t of
        Inl e \<Rightarrow> Inl e
      | Inr (JArr xs) \<Rightarrow> Inl TypeError
      | Inr (JObj props) \<Rightarrow> Inl TypeError
      | Inr v \<Rightarrow> Inr v)"
| "item_ToPrimitive other = Inr (JStr ''[object Object]'')"

definition item_string :: "entry item \<Rightarrow> string" where
  "item_string x = (case item_ToPrimitive x of Inl e \<Rightarrow> [] | Inr v \<Rightarrow> ToString v)"

fun primitive_number :: "json \<Rightarrow> int option" where
  "primitive_number (JNum n) = Some n"
| "primitive_number (JBool b) = Some (if b then 1 else 0)"
| "primitive_number JNull = Some 0"
| "primitive_number v = None"

definition item_lt :: "entry item \<Rightarrow> entry item \<Rightarrow> bool" where
  "item_lt x y =
     (case (item_ToPrimitive x, item_ToPrimitive y) of
        (Inr (JStr s), Inr (JStr t)) \<Rightarrow> js_string_lt s t
      | (Inr v, Inr w) \<Rightarrow>
          (case (primitive_number v, primitive_number w) of
             (Some m, Some n) \<Rightarrow> m < n
           | _ \<Rightarrow> False)
      | _ \<Rightarrow> False)"

section \<open>A world and entries to evaluate the resolution on\<close>

text \<open>
  A remote API that knows one track, found by the search for \<open>test\<close>, and one album,
  found by the album search for \<open>test\<close>; every other track search finds nothing, and
  every other request is answered with status 404.
\<close>

definition example_track_simple :: json where
  "example_track_simple =
     JObj [(''id'', JStr ''5jwDjl5FofuDgwITfcROhq''), (''name'', JStr ''Test''),
           (''uri'', JStr ''spotify:track:5jwDjl5FofuDgwITfcROhq''),
           (''artists'', JArr [JObj [(''name'', JStr ''Somebody'')]])]"

definition example_track_full :: json where
  "example_track_full =
     JObj [(''id'', JStr ''5jwDjl5FofuDgwITfcROhq''), (''name'', JStr ''Test''),
           (''uri'', JStr ''spotify:track:5jwDjl5FofuDgwITfcROhq''),
           (''artists'', JArr [JObj [(''name'', JStr ''Somebody'')]]),
           (''album'', JObj [(''name'', JStr ''An Album'')]),
           (''popularity'', JNum 42)]"

definition example_album_search :: json where
  "example_album_search = JObj [(''albums'', JObj [(''items'', JArr [JObj [(''id'', JStr ''ALB'')]])])]"

definition example_album_record :: json where
  "example_album_record =
     JObj [(''id'', JStr ''ALB''), (''tracks'', JObj [(''items'', JArr [example_track_simple])])]"

definition example_respond :: "string list \<Rightarrow> string \<Rightarrow> error + json" where
  "example_respond history url =
     (if url = ''https://api.spotify.com/v1/tracks/5jwDjl5FofuDgwITfcROhq''
      then Inr example_track_full
      else if url = ''https://api.spotify.com/v1/search?type=track&q=test''
      then Inr (JObj [(''tracks'', JObj [(''items'', JArr [example_track_simple])])])
      else if url = ''https://api.spotify.com/v1/search?type=album&q=test''
      then Inr example_album_search
      else if url = ''https://api.spotify.com/v1/albums/ALB''
      then Inr example_album_record
      else if take 47 url = ''https://api.spotify.com/v1/search?type=track&q=''
      then Inr (JObj [(''tracks'', JObj [(''items'', JArr [])])])
      else Inl (Reason (JNum 404)))"

definition example_world :: world where
  "example_world = \<lparr>respond = example_respond, requests = [], global_albumResponse = JUndefined\<rparr>"

definition example_album :: album where
  "example_album = \<lparr>Album_entry = ''test'', Album_searchResponse = JUndefined,
                     Album_albumResponse = JUndefined\<rparr>"

text \<open>The requests of a world extend those of an earlier one.\<close>

definition grows :: "world \<Rightarrow> world \<Rightarrow> bool" where
  "grows w w' \<longleftrightarrow> (\<exists>more. requests w' = requests w @ more)"

section \<open>Comparator framework: theorems\<close>

lemma foldl_callback:
  "foldl callback fn fns a b = first_nonzero (fn a b # map (\<lambda>c. c a b) fns)"
proof (induction fns arbitrary: fn)
  case Nil
  show ?case by simp
next
  case (Cons g gs)
  have "foldl callback fn (g # gs) a b = foldl callback (callback fn g) gs a b"
    by simp
  also have "\<dots> = first_nonzero (callback fn g a b # map (\<lambda>c. c a b) gs)"
    by (rule Cons.IH)
  also have "\<dots> = first_nonzero (fn a b # map (\<lambda>c. c a b) (g # gs))"
    by (simp add: callback_def Let_def)
  finally show ?case .
qed

lemma first_nonzero_zero_iff: "first_nonzero vs = 0 \<longleftrightarrow> vs = replicate (length vs) 0"
  by (induction vs) auto

text \<open>
  C9. For comparators \<open>cmp1, ..., cmpN\<close> (\<open>N \<ge> 1\<close>), \<open>combine\<close> returns a comparator
  whose value on any pair is the value of the first comparator, from the left, that
  is not 0 on the pair, and 0 when all of them are 0, and only then. For two
  comparators this is \<open>cmpA\<close>'s value when that is not 0 and \<open>cmpB\<close>'s value otherwise.
\<close>

theorem combine_first_nonzero:
  "(\<exists>f. combine (cmp # cmps) = Inr f \<and>
        (\<forall>a b. f a b = first_nonzero (map (\<lambda>c. c a b) (cmp # cmps))) \<and>
        (\<forall>a b. (f a b = 0) =
                 (map (\<lambda>c. c a b) (cmp # cmps) = replicate (Suc (length cmps)) 0))) \<and>
   (\<exists>f. combine [cmpA, cmpB] = Inr f \<and>
        (\<forall>a b. f a b = (if cmpA a b = 0 then cmpB a b else cmpA a b)))"
proof (intro conjI)
  have f: "\<And>a b. foldl callback cmp cmps a b = first_nonzero (map (\<lambda>c. c a b) (cmp # cmps))"
    by (simp add: foldl_callback)
  have z: "\<And>a b. (foldl callback cmp cmps a b = 0) =
                 (map (\<lambda>c. c a b) (cmp # cmps) = replicate (Suc (length cmps)) 0)"
    unfolding f using first_nonzero_zero_iff [of "map (\<lambda>c. c a b) (cmp # cmps)" for a b]
    by simp
  from f z show "\<exists>f. combine (cmp # cmps) = Inr f \<and>
        (\<forall>a b. f a b = first_nonzero (map (\<lambda>c. c a b) (cmp # cmps))) \<and>
        (\<forall>a b. (f a b = 0) =
                 (map (\<lambda>c. c a b) (cmp # cmps) = replicate (Suc (length cmps)) 0))"
    by (simp add: combine_def)
  show "\<exists>f. combine [cmpA, cmpB] = Inr f \<and>
        (\<forall>a b. f a b = (if cmpA a b = 0 then cmpB a b else cmpA a b))"
    by (simp add: combine_def callback_def Let_def)
qed

section \<open>Queue.flatten: theorems\<close>

lemma flatten_loop_leaves:
  "Queue_flatten q = map Entry (leaves q)"
  "flatten_loop result q = result @ map Entry (leaves q)"
  by (induction q and result q rule: Queue_flatten_flatten_loop.induct) simp_all

lemma leaves_map_Entry: "leaves (map Entry xs) = xs"
  by (induction xs) simp_all

lemma filter_is_Queue_map_Entry: "filter is_Queue (map Entry xs) = []"
  by (induction xs) simp_all

lemma leaves_append: "leaves (xs @ ys) = leaves xs @ leaves ys"
  by (induction xs rule: leaves.induct) simp_all

text \<open>
  C7. \<open>flatten\<close> turns a Queue of plain entries and nested Queues, of any depth, into
  the sequence of its plain entries, depth first from left to right: each plain
  entry is kept as it is, no element of the result is a Queue, and the result has as
  many elements as there are plain entries under the Queue.
\<close>

theorem Queue_flatten_leaves:
  "Queue_flatten q = map Entry (leaves q) \<and>
   length (Queue_flatten q) = length (leaves q) \<and>
   filter is_Queue (Queue_flatten q) = [] \<and>
   Queue_flatten (q @ q') = Queue_flatten q @ Queue_flatten q' \<and>
   Queue_flatten [Entry x] = [Entry x] \<and>
   Queue_flatten [Queue q] = Queue_flatten q"
  by (simp add: flatten_loop_leaves filter_is_Queue_map_Entry leaves_append)

section \<open>Queue.resolveAll: theorems\<close>

lemma then_chain_step:
  "Promise_then (Promise_then (Promise_then ready (\<lambda>_. on_world (fn entry))) (\<lambda>v. result_add v))
      (\<lambda>_. chain_outcome fn rest)
   = Promise_then ready (\<lambda>_. chain_outcome fn (entry # rest))"
  by (auto simp: Promise_then_def on_world_def result_add_def Queue_add_def fun_eq_iff
      split: prod.splits sum.splits)

lemma then_unit: "Promise_then p (\<lambda>_. chain_outcome fn []) = (p :: ('s \<times> 'b list, 'e, unit) promise)"
  by (auto simp: Promise_then_def fun_eq_iff split: prod.splits sum.splits)

lemma foldl_chain:
  "foldl (\<lambda>ready entry.
            Promise_then (Promise_then ready (\<lambda>_. on_world (fn entry))) (\<lambda>v. result_add v))
     ready queue
   = Promise_then ready (\<lambda>_. chain_outcome fn queue)"
proof (induction queue arbitrary: ready)
  case Nil
  show ?case by (simp add: then_unit)
next
  case (Cons entry rest)
  show ?case by (simp add: Cons.IH then_chain_step)
qed

lemma chain_outcome_one_at_a_time:
  "(case chain_outcome fn q (s, result) of
      (Inl e, (s', result')) \<Rightarrow> (Inl e, s')
    | (Inr u, (s', result')) \<Rightarrow> (Inr result', s'))
   = (case one_at_a_time fn q s of
        (Inl e, s') \<Rightarrow> (Inl e, s')
      | (Inr vs, s') \<Rightarrow> (Inr (result @ vs), s'))"
proof (induction q arbitrary: s result)
  case Nil
  show ?case by simp
next
  case (Cons entry rest)
  show ?case
  proof (cases "fn entry s")
    case (Pair r s')
    show ?thesis
    proof (cases r)
      case (Inl e)
      with Pair show ?thesis by simp
    next
      case (Inr v)
      with Pair Cons.IH [of s' "result @ [v]"] show ?thesis
        by (simp split: prod.splits sum.splits)
    qed
  qed
qed

lemma Queue_resolveAll_one_at_a_time: "Queue_resolveAll fn q s = one_at_a_time fn q s"
proof -
  have "Queue_resolveAll fn q s =
    (case chain_outcome fn q (s, []) of
      (Inl e, (s', result')) \<Rightarrow> (Inl e, s')
    | (Inr u, (s', result')) \<Rightarrow> (Inr result', s'))"
    unfolding Queue_resolveAll_def Let_def foldl_chain
    by (simp add: Promise_then_def Promise_resolve_def split: prod.splits sum.splits)
  also have "\<dots> = (case one_at_a_time fn q s of
        (Inl e, s') \<Rightarrow> (Inl e, s')
      | (Inr vs, s') \<Rightarrow> (Inr ([] @ vs), s'))"
    by (rule chain_outcome_one_at_a_time)
  also have "\<dots> = one_at_a_time fn q s"
    by (simp split: prod.splits sum.splits)
  finally show ?thesis .
qed

lemma recorded_apply:
  "recorded fn entry (s, log) = (case fn entry s of (r, s') \<Rightarrow> (r, (s', log @ [(entry, r)])))"
  by (simp add: recorded_def)

lemma recorded_success:
  "one_at_a_time (recorded fn) q (s, log) = (Inr vs, (s', log')) \<Longrightarrow>
   one_at_a_time fn q s = (Inr vs, s') \<and> length vs = length q \<and> log' = log @ zip q (map Inr vs)"
proof (induction q arbitrary: s log vs)
  case Nil
  then show ?case by simp
next
  case (Cons entry rest)
  from Cons.prems obtain v s1 where f: "fn entry s = (Inr v, s1)"
    by (auto simp: recorded_apply split: prod.splits sum.splits)
  with Cons.prems obtain ws where
    r: "one_at_a_time (recorded fn) rest (s1, log @ [(entry, Inr v)]) = (Inr ws, (s', log'))"
    and vs: "vs = v # ws"
    by (auto simp: recorded_apply split: prod.splits sum.splits)
  from Cons.IH [OF r] f vs show ?case by simp
qed

lemma recorded_failure:
  fixes fn :: "'a \<Rightarrow> ('s, 'e, 'b) promise"
  shows "one_at_a_time (recorded fn) q (s, log) = (Inl e, (s', log')) \<Longrightarrow>
   one_at_a_time fn q s = (Inl e, s') \<and>
   (\<exists>k vs. k < length q \<and> length vs = k \<and>
      log' = log @ zip (take k q) (map Inr vs) @ [(q ! k, Inl e)])"
proof (induction q arbitrary: s log)
  case Nil
  then show ?case by simp
next
  case (Cons entry rest)
  obtain r s1 where f: "fn entry s = (r, s1)" by (cases "fn entry s")
  show ?case
  proof (cases r)
    case (Inl e')
    with f Cons.prems have "e' = e" "s1 = s'" "log' = log @ [(entry, Inl e)]"
      by (auto simp: recorded_apply)
    with f Inl have "one_at_a_time fn (entry # rest) s = (Inl e, s')" by simp
    moreover have "0 < length (entry # rest) \<and> length ([] :: 'b list) = 0 \<and>
      log' = log @ zip (take 0 (entry # rest)) (map Inr ([] :: 'b list)) @ [((entry # rest) ! 0, Inl e)]"
      using \<open>log' = log @ [(entry, Inl e)]\<close> by simp
    ultimately show ?thesis by blast
  next
    case (Inr v)
    with f Cons.prems have
      r: "one_at_a_time (recorded fn) rest (s1, log @ [(entry, Inr v)]) = (Inl e, (s', log'))"
      by (auto simp: recorded_apply split: prod.splits sum.splits)
    from Cons.IH [OF r] obtain k vs where
      o: "one_at_a_time fn rest s1 = (Inl e, s')" and k: "k < length rest" "length vs = k"
      and l: "log' = (log @ [(entry, Inr v)]) @ zip (take k rest) (map Inr vs) @ [(rest ! k, Inl e)]"
      by blast
    from o f Inr have "one_at_a_time fn (entry # rest) s = (Inl e, s')" by simp
    moreover from k l have "Suc k < length (entry # rest) \<and> length (v # vs) = Suc k \<and>
      log' = log @ zip (take (Suc k) (entry # rest)) (map Inr (v # vs)) @ [((entry # rest) ! Suc k, Inl e)]"
      by simp
    ultimately show ?thesis by blast
  qed
qed

text \<open>
  C1. \<open>resolveAll(fn)\<close> invokes \<open>fn\<close> on the elements one at a time, in the order of
  the Queue, each invocation starting when the previous one has been fulfilled. When
  all are fulfilled it is fulfilled with their values in the order of the elements.
  When an invocation is rejected it is rejected with the same reason, the values
  collected so far are not returned, and \<open>fn\<close> is invoked on no later element: the
  record of the invocations ends with the rejected one.
\<close>

theorem Queue_resolveAll_sequential:
  fixes fn :: "'a \<Rightarrow> ('s, 'e, 'b) promise"
  shows "Queue_resolveAll fn q s = one_at_a_time fn q s \<and>
   (\<forall>r s' log. Queue_resolveAll (recorded fn) q (s, []) = (r, (s', log)) \<longrightarrow>
      Queue_resolveAll fn q s = (r, s') \<and>
      (case r of
         Inr vs \<Rightarrow> length vs = length q \<and> log = zip q (map Inr vs)
       | Inl e \<Rightarrow> (\<exists>k vs. k < length q \<and> length vs = k \<and>
                    log = zip (take k q) (map Inr vs) @ [(q ! k, Inl e)])))"
proof (intro conjI allI impI)
  show "Queue_resolveAll fn q s = one_at_a_time fn q s"
    by (rule Queue_resolveAll_one_at_a_time)
next
  fix r s' log
  assume "Queue_resolveAll (recorded fn) q (s, []) = (r, (s', log))"
  then have a: "one_at_a_time (recorded fn) q (s, []) = (r, (s', log))"
    by (simp add: Queue_resolveAll_one_at_a_time)
  show "Queue_resolveAll fn q s = (r, s')"
    using a recorded_success [of fn q s "[]"] recorded_failure [of fn q s "[]"]
    by (cases r) (auto simp: Queue_resolveAll_one_at_a_time)
  show "case r of
         Inr vs \<Rightarrow> length vs = length q \<and> log = zip q (map Inr vs)
       | Inl e \<Rightarrow> (\<exists>k vs. k < length q \<and> length vs = k \<and>
                    log = zip (take k q) (map Inr vs) @ [(q ! k, Inl e)])"
    using a recorded_success [of fn q s "[]"] recorded_failure [of fn q s "[]"]
    by (cases r) auto
qed

theorem Queue_resolveAll_sequential_witness:
  "Queue_resolveAll
     (recorded (\<lambda>x s. if x = 3 then (Inl ''failed'', s) else (Inr (10 * x + s), Suc s)))
     [1, 2, 3, 4] (0 :: nat, [])
     = (Inl ''failed'', (2, [(1 :: nat, Inr 10), (2, Inr 21), (3, Inl ''failed'')])) \<and>
   Queue_resolveAll
     (\<lambda>x s. if x = 3 then (Inl ''failed'', s) else (Inr (10 * x + s), Suc s))
     [1, 2, 3, 4] (0 :: nat)
     = (Inl ''failed'', 2) \<and>
   Queue_resolveAll
     (\<lambda>x s. if x = 3 then (Inl ''failed'', s) else (Inr (10 * x + s), Suc s))
     [1, 2, 4] (0 :: nat)
     = (Inr [10, 21, 42], 3)"
proof -
  let ?f = "\<lambda>(x :: nat) (s :: nat).
    if x = 3 then (Inl ''failed'', s) else (Inr (10 * x + s) :: string + nat, Suc s)"
  note t = Queue_resolveAll_sequential [of "recorded ?f" "[1, 2, 3, 4]" "(0, [])"]
  note u = Queue_resolveAll_sequential [of ?f "[1, 2, 3, 4]" 0]
  note v = Queue_resolveAll_sequential [of ?f "[1, 2, 4]" 0]
  have a: "Queue_resolveAll (recorded ?f) [1, 2, 3, 4] (0, [])
     = (Inl ''failed'', (2, [(1, Inr 10), (2, Inr 21), (3, Inl ''failed'')]))"
    using t by (simp add: recorded_apply)
  from u a have b: "Queue_resolveAll ?f [1, 2, 3, 4] 0 = (Inl ''failed'', 2)"
    by blast
  from v have c: "Queue_resolveAll ?f [1, 2, 4] 0 = (Inr [10, 21, 42], 3)"
    by simp
  from a b c show ?thesis by simp
qed

section \<open>Queue.group: theorems\<close>

lemma map_fst_push_bucket:
  "map fst (push_bucket props k e)
     = (if k \<in> set (map fst props) then map fst props else map fst props @ [k])"
proof -
  have m: "\<And>ps. map fst (map (\<lambda>(k', bucket). if k' = k then (k', bucket @ [e]) else (k', bucket)) ps)
      = map fst (ps :: (string \<times> 'a list) list)"
    by (simp add: case_prod_beta)
  show ?thesis
    unfolding push_bucket_def Let_def m
    by (auto simp: map_of_eq_None_iff)
qed

lemma map_of_update_bucket:
  "map_of (map (\<lambda>(k', bucket). if k' = k then (k', bucket @ [e]) else (k', bucket)) ps) k'
     = (if k' = k then map_option (\<lambda>b. b @ [e]) (map_of ps k') else map_of ps k')"
  by (induction ps) auto

lemma bucket_of_push_bucket:
  "bucket_of (push_bucket props k e) k'
     = (if k' = k then bucket_of props k' @ [e] else bucket_of props k')"
  by (auto simp: bucket_of_def push_bucket_def Let_def map_of_update_bucket map_of_append
      split: option.splits)

lemma first_appearance_Cons:
  "first_appearance (k # ks) = k # first_appearance (filter (\<lambda>y. y \<noteq> k) ks)"
proof -
  have "(\<lambda>y. \<not> k = y) = (\<lambda>y. y \<noteq> k)" by auto
  then show ?thesis by (simp add: first_appearance_def)
qed

lemma first_appearance_Nil: "first_appearance [] = []"
  by (simp add: first_appearance_def)

lemma group_buckets_invariant:
  assumes "\<forall>entry\<in>set xs. fn entry \<noteq> ''__proto__'' \<and> \<not> array_has (fn entry)"
    and "distinct (map fst props)"
  shows "\<exists>props'. group_buckets array_has fn props xs = Inr props' \<and>
           distinct (map fst props') \<and>
           map fst props' = map fst props
              @ first_appearance (filter (\<lambda>k. k \<notin> set (map fst props)) (map fn xs)) \<and>
           (\<forall>k. bucket_of props' k = bucket_of props k @ filter (\<lambda>entry. fn entry = k) xs)"
  using assms
proof (induction xs arbitrary: props)
  case Nil
  then show ?case by (simp add: first_appearance_Nil)
next
  case (Cons x xs)
  let ?k = "fn x"
  let ?p1 = "push_bucket props ?k x"
  from Cons.prems have ok: "?k \<noteq> ''__proto__''" "\<not> array_has ?k"
    and rest: "\<forall>entry\<in>set xs. fn entry \<noteq> ''__proto__'' \<and> \<not> array_has (fn entry)"
    by auto
  have d1: "distinct (map fst ?p1)"
    using Cons.prems(2) by (simp add: map_fst_push_bucket del: set_map)
  from Cons.IH [OF rest d1] obtain props' where
    g: "group_buckets array_has fn ?p1 xs = Inr props'" and
    d: "distinct (map fst props')" and
    ks: "map fst props' = map fst ?p1
              @ first_appearance (filter (\<lambda>k. k \<notin> set (map fst ?p1)) (map fn xs))" and
    b: "\<forall>k. bucket_of props' k = bucket_of ?p1 k @ filter (\<lambda>entry. fn entry = k) xs"
    by blast
  have g': "group_buckets array_has fn props (x # xs) = Inr props'"
    using ok g by (simp add: Let_def)
  have ks': "map fst props' = map fst props
              @ first_appearance (filter (\<lambda>k. k \<notin> set (map fst props)) (map fn (x # xs)))"
  proof (cases "?k \<in> set (map fst props)")
    case True
    with ks show ?thesis by (simp add: map_fst_push_bucket del: set_map)
  next
    case False
    have "filter (\<lambda>k. k \<notin> set (map fst props @ [?k])) (map fn xs)
        = filter (\<lambda>y. y \<noteq> ?k) (filter (\<lambda>k. k \<notin> set (map fst props)) (map fn xs))"
      by (auto intro: filter_cong)
    with False ks show ?thesis
      by (simp add: map_fst_push_bucket first_appearance_Cons del: set_map)
  qed
  have b': "\<forall>k. bucket_of props' k = bucket_of props k @ filter (\<lambda>entry. fn entry = k) (x # xs)"
    using b by (auto simp: bucket_of_push_bucket)
  from g' d ks' b' show ?case by blast
qed

lemma foldl_append_snd: "foldl (\<lambda>result p. result @ snd p) acc ps = acc @ concat (map snd ps)"
  by (induction ps arbitrary: acc) simp_all

lemma map_fst_insort_key:
  "map fst (insort_key (\<lambda>p. f (fst p)) p ps) = insort_key f (fst p) (map fst ps)"
  by (induction ps) simp_all

lemma map_fst_sort_key:
  "map fst (sort_key (\<lambda>p. f (fst p)) ps) = sort_key f (map fst ps)"
  by (induction ps) (simp_all add: map_fst_insort_key)

lemma map_fst_for_in: "map fst (for_in props) = enumeration_order (map fst props)"
  by (simp add: for_in_def enumeration_order_def map_fst_sort_key filter_map comp_def)

lemma set_for_in: "set (for_in props) = set props"
  by (auto simp: for_in_def)

lemma snd_bucket_of:
  "distinct (map fst props) \<Longrightarrow> p \<in> set props \<Longrightarrow> snd p = bucket_of props (fst p)"
  by (cases p) (simp add: bucket_of_def)

lemma concat_for_in:
  assumes "distinct (map fst props)"
  shows "concat (map snd (for_in props))
     = concat (map (bucket_of props) (enumeration_order (map fst props)))"
proof -
  have "map snd (for_in props) = map (\<lambda>p. bucket_of props (fst p)) (for_in props)"
    using assms by (intro map_cong refl snd_bucket_of) (simp_all add: set_for_in)
  also have "\<dots> = map (bucket_of props) (map fst (for_in props))"
    by simp
  finally show ?thesis by (simp add: map_fst_for_in)
qed

lemma Queue_group_enumeration:
  assumes "\<forall>entry\<in>set q. fn entry \<noteq> ''__proto__'' \<and> \<not> array_has (fn entry)"
  shows "Queue_group array_has fn q
     = Inr (grouped fn (enumeration_order (first_appearance (map fn q))) q)"
proof -
  from group_buckets_invariant [OF assms, of "[]"] obtain props' where
    g: "group_buckets array_has fn [] q = Inr props'" and
    d: "distinct (map fst props')" and
    ks: "map fst props' = first_appearance (map fn q)" and
    b: "\<forall>k. bucket_of props' k = filter (\<lambda>entry. fn entry = k) q"
    by (auto simp: bucket_of_def)
  from b have "bucket_of props' = (\<lambda>k. filter (\<lambda>entry. fn entry = k) q)" by auto
  with g d ks show ?thesis
    by (simp add: Queue_group_def foldl_append_snd concat_for_in grouped_def)
qed

lemma enumeration_order_no_index:
  "\<forall>k\<in>set ks. \<not> is_array_index k \<Longrightarrow> enumeration_order ks = ks"
proof -
  assume a: "\<forall>k\<in>set ks. \<not> is_array_index k"
  then have "filter is_array_index ks = []" by (simp add: filter_empty_conv)
  moreover from a have "filter (\<lambda>k. \<not> is_array_index k) ks = ks" by (simp add: filter_id_conv)
  ultimately show ?thesis by (simp add: enumeration_order_def)
qed

lemma set_first_occurrences: "set (first_occurrences eq xs) \<subseteq> set xs"
  by (induction eq xs rule: first_occurrences.induct) auto

section \<open>Requests made by the entries: theorems\<close>

lemma requests_request: "requests (snd (request url w)) = requests w @ [url]"
  by (simp add: request_def Let_def split: sum.splits)

lemma respond_request: "respond (snd (request url w)) = respond w"
  by (simp add: request_def Let_def split: sum.splits)

lemma requests_then_with_self_request:
  assumes "\<And>v self w'. requests (snd (snd (f v (self, w')))) = requests w'"
  shows "requests (snd (snd (Promise_then (with_self (request url)) f (self, w))))
     = requests w @ [url]"
proof (cases "request url w")
  case (Pair r w')
  then have "requests w' = requests w @ [url]"
    using requests_request [of url w] by simp
  with Pair assms show ?thesis
    by (cases r) (simp_all add: Promise_then_def with_self_def)
qed

lemma requests_Track_fetchTrack:
  "requests (snd (snd (Track_fetchTrack (self, w))))
     = requests w @ [''https://api.spotify.com/v1/tracks/''
                       @ encodeURIComponent (ToString (Track_id self))]"
  unfolding Track_fetchTrack_def Let_def prod.case
  by (rule requests_then_with_self_request) (simp add: Let_def)

lemma requests_Track_searchForTrack:
  "requests (snd (snd (Track_searchForTrack query (self, w))))
     = requests w @ [''https://api.spotify.com/v1/search?type=track&q=''
                       @ encodeURIComponent query]"
  unfolding Track_searchForTrack_def Let_def prod.case
  by (rule requests_then_with_self_request) (simp split: sum.splits)

lemma requests_Album_fetchAlbum:
  "requests (snd (snd (Album_fetchAlbum (self, w))))
     = requests w @ [''https://api.spotify.com/v1/albums/''
                       @ encodeURIComponent (ToString (Album_id self))]"
  unfolding Album_fetchAlbum_def Let_def prod.case
  by (rule requests_then_with_self_request) (simp split: sum.splits)

lemma self_Album_fetchAlbum: "fst (snd (Album_fetchAlbum (self, w))) = self"
  by (simp add: Album_fetchAlbum_def Let_def Promise_then_def with_self_def
      split: sum.splits prod.splits)

lemma requests_then_createQueue:
  "requests (snd (snd (Promise_then p
       (\<lambda>response (self, w). (Album_createQueue self response, (self, w))) s)))
   = requests (snd (snd (p s)))"
  by (simp add: Promise_then_def split: sum.splits prod.splits)

lemma self_then_createQueue:
  "fst (snd (Promise_then p
       (\<lambda>response (self, w). (Album_createQueue self response, (self, w))) s))
   = fst (snd (p s))"
  by (simp add: Promise_then_def split: sum.splits prod.splits)

lemma Album_redispatch:
  assumes "truthy (Album_searchResponse self) \<or> truthy (Album_albumResponse self)"
  shows "requests (snd (snd (Album_dispatch (self, w))))
     = requests w @ [''https://api.spotify.com/v1/albums/''
                       @ encodeURIComponent (ToString (Album_id self))]"
    and "fst (snd (Album_dispatch (self, w))) = self"
  using assms
  by (auto simp: Album_dispatch_def requests_then_createQueue requests_Album_fetchAlbum
      self_then_createQueue self_Album_fetchAlbum)

lemma Track_redispatch:
  "truthy (Track_response self) \<Longrightarrow> Track_dispatch (self, w) = (Inr (TrackE self), (self, w))"
  by (simp add: Track_dispatch_def Promise_resolve_def)

lemma requests_Artist_searchForArtist:
  "requests (snd (snd (Artist_searchForArtist query (self, w))))
     = requests w @ [''https://api.spotify.com/v1/search?type=artist&q=''
                       @ encodeURIComponent query]"
  unfolding Artist_searchForArtist_def Let_def prod.case
  by (rule requests_then_with_self_request) (simp split: sum.splits)

lemma grows_refl: "grows w w"
  by (simp add: grows_def)

lemma grows_trans: "grows w w' \<Longrightarrow> grows w' w'' \<Longrightarrow> grows w w''"
  by (auto simp: grows_def)

lemma grows_global: "grows w (w'\<lparr>global_albumResponse := v\<rparr>) = grows w w'"
  by (simp add: grows_def)

lemma grows_request: "grows w (snd (request url w))"
  by (simp add: grows_def requests_request)

lemma grows_one_at_a_time:
  assumes "\<And>x s. grows s (snd (fn x s))"
  shows "grows s (snd (one_at_a_time fn q s))"
proof (induction q arbitrary: s)
  case Nil
  show ?case by (simp add: grows_refl)
next
  case (Cons x q)
  obtain r s1 where f: "fn x s = (r, s1)" by (cases "fn x s")
  with assms [of s x] have g1: "grows s s1" by simp
  show ?case
  proof (cases r)
    case (Inl e)
    with f g1 show ?thesis by simp
  next
    case (Inr v)
    obtain r2 s2 where o: "one_at_a_time fn q s1 = (r2, s2)" by (cases "one_at_a_time fn q s1")
    with Cons.IH [of s1] have "grows s1 s2" by simp
    with g1 have "grows s s2" by (rule grows_trans)
    with f Inr o show ?thesis by (cases r2) simp_all
  qed
qed

lemma grows_Album_fetchAlbum: "grows w (snd (snd (Album_fetchAlbum (self, w))))"
  by (simp add: grows_def requests_Album_fetchAlbum)

lemma grows_Album_searchForAlbum: "grows w (snd (snd (Album_searchForAlbum query (self, w))))"
proof -
  have "requests (snd (snd (Album_searchForAlbum query (self, w))))
     = requests w @ [''https://api.spotify.com/v1/search?type=album&q=''
                       @ encodeURIComponent query]"
    unfolding Album_searchForAlbum_def Let_def prod.case
    by (rule requests_then_with_self_request) (simp split: sum.splits)
  then show ?thesis by (simp add: grows_def)
qed

lemma grows_then:
  assumes "grows w (snd (snd (p (self, w))))"
    and "\<And>v self' w'. grows w' (snd (snd (f v (self', w'))))"
  shows "grows w (snd (snd (Promise_then p f (self, w))))"
proof -
  obtain r self1 w1 where Pair: "p (self, w) = (r, (self1, w1))"
    by (metis prod.collapse)
  with Pair assms(1) have g: "grows w w1" by simp
  show ?thesis
  proof (cases r)
    case (Inl e)
    with Pair g show ?thesis by (simp add: Promise_then_def)
  next
    case (Inr v)
    from assms(2) [of w1 v self1] g have "grows w (snd (snd (f v (self1, w1))))"
      by (rule grows_trans [rotated])
    with Pair Inr show ?thesis by (simp add: Promise_then_def)
  qed
qed

lemma grows_Album_dispatch: "grows w (snd (snd (Album_dispatch (self, w))))"
  unfolding Album_dispatch_def prod.case
  by (auto intro!: grows_then grows_Album_fetchAlbum grows_Album_searchForAlbum
      simp: grows_refl)

lemma grows_Artist_fetchAlbums: "grows w (snd (snd (Artist_fetchAlbums (self, w))))"
proof (cases "Artist_id self")
  case (Inl e)
  then show ?thesis by (simp add: Artist_fetchAlbums_def grows_refl)
next
  case (Inr found)
  have "requests (snd (snd (Artist_fetchAlbums (self, w))))
     = requests w @ [''https://api.spotify.com/v1/artists/''
                       @ encodeURIComponent (ToString found) @ ''/albums'']"
    unfolding Artist_fetchAlbums_def Let_def prod.case Inr sum.case
    by (rule requests_then_with_self_request) simp
  then show ?thesis by (simp add: grows_def)
qed

lemma grows_Artist_createQueue: "grows w (snd (snd (Artist_createQueue response (self, w))))"
proof (cases "Artist_albums (Artist_entry self) [] (for_in_values (get response ''items''))")
  case (Inl e)
  then show ?thesis by (simp add: Artist_createQueue_def grows_refl)
next
  case (Inr queue)
  let ?d = "\<lambda>al w. case Album_dispatch (al, w) of (r, (al', w')) \<Rightarrow> (r, w')"
  have "\<And>x s. grows s (snd (?d x s))"
    using grows_Album_dispatch by (simp split: prod.splits) (metis snd_conv)
  then have "grows w (snd (one_at_a_time ?d queue w))"
    by (rule grows_one_at_a_time)
  then have g: "grows w (snd (Queue_dispatch ?d queue w))"
    by (simp add: Queue_dispatch_def Queue_resolveAll_one_at_a_time)
  obtain r w' where q: "Queue_dispatch ?d queue w = (r, w')"
    by (metis prod.collapse)
  with g have "grows w w'" by simp
  with Inr q show ?thesis
    by (cases r) (simp_all add: Artist_createQueue_def)
qed

lemma Artist_redispatch:
  "\<exists>more. requests (snd (snd (Artist_dispatch (self, w))))
     = requests w @ [''https://api.spotify.com/v1/search?type=artist&q=''
                       @ encodeURIComponent (Artist_entry self)] @ more"
proof -
  obtain r self1 w1 where
    Pair: "Artist_searchForArtist (Artist_entry self) (self, w) = (r, (self1, w1))"
    by (metis prod.collapse)
  from Pair requests_Artist_searchForArtist [of "Artist_entry self" self w]
  have w1: "requests w1 = requests w @ [''https://api.spotify.com/v1/search?type=artist&q=''
                       @ encodeURIComponent (Artist_entry self)]"
    by simp
  have "grows w1 (snd (snd (Promise_then (\<lambda>s. Artist_fetchAlbums s) Artist_createQueue (self1, w1))))"
    by (intro grows_then grows_Artist_fetchAlbums grows_Artist_createQueue)
  moreover have "snd (snd (Artist_dispatch (self, w)))
     = (case r of Inl e \<Rightarrow> w1
        | Inr v \<Rightarrow> snd (snd (Promise_then (\<lambda>s. Artist_fetchAlbums s) Artist_createQueue (self1, w1))))"
    using Pair by (simp add: Artist_dispatch_def Promise_then_def split: sum.splits)
  ultimately have "grows w1 (snd (snd (Artist_dispatch (self, w))))"
    by (cases r) (simp_all add: grows_refl)
  with w1 show ?thesis by (auto simp: grows_def)
qed

lemmas host_eval =
  trim_def is_whitespace_def lower_char_def toLowerCase_def ascii_lower_def starts_with_ci_def
  hex_digit_def percent_def is_unreserved_def encode_char_def encodeURIComponent_def
  get_def js_and_def Number_toString_def array_index_def is_digit_def numeral_value_def
  Let_def

lemmas track_eval =
  Track_def Track_isURI_def Track_isLink_def Track_isFullResponse_def Track_id_def
  Track_uri_def Track_popularity_def Track_either_response_def Track_artist_def
  Track_title_def Track_album_def Track_name_def Track_toString_def Track_lastfm_def
  Track_fetchTrack_def Track_searchForTrack_def Track_dispatch_def
  Promise_then_def Promise_resolve_def Promise_reject_def with_self_def request_def

lemmas example_eval =
  example_world_def example_respond_def example_track_simple_def example_track_full_def
  example_album_search_def example_album_record_def example_album_def

lemmas album_eval =
  Album_def Album_isSearchResponse_def Album_isAlbumResponse_def Album_id_def
  Album_searchForAlbum_def Album_fetchAlbum_def Album_createQueue_def Album_dispatch_def
  Queue_add_def

section \<open>Track: theorems\<close>
lemma Track_simplified_fields:
  assumes "map_of props ''popularity'' = None \<or> map_of props ''popularity'' = Some (JNum 0)"
  shows "Track_responseSimple (Track entry (JObj props)) = JObj props"
    and "Track_response (Track entry (JObj props)) = JNull"
  using assms by (auto simp: Track_def Track_isFullResponse_def get_def Let_def)

text \<open>
  C10. A Track constructed with a response record whose \<open>popularity\<close> is 0 or absent
  takes the record as its simplified response and has no full response: its
  \<open>popularity()\<close> is \<open>-1\<close>, and \<open>dispatch()\<close> is \<open>fetchTrack()\<close>, which makes one request,
  for the track by its id.
\<close>

theorem Track_zero_popularity:
  assumes "map_of props ''popularity'' = None \<or> map_of props ''popularity'' = Some (JNum 0)"
  shows "Track_responseSimple (Track entry (JObj props)) = JObj props \<and>
         Track_response (Track entry (JObj props)) = JNull \<and>
         Track_popularity (Track entry (JObj props)) = JNum (- 1) \<and>
         Track_dispatch (Track entry (JObj props), w)
           = Track_fetchTrack (Track entry (JObj props), w) \<and>
         requests (snd (snd (Track_dispatch (Track entry (JObj props), w))))
           = requests w @ [''https://api.spotify.com/v1/tracks/''
               @ encodeURIComponent (ToString (Track_id (Track entry (JObj props))))]"
proof -
  note f = Track_simplified_fields [OF assms, of entry]
  have d: "Track_dispatch (Track entry (JObj props), w)
           = Track_fetchTrack (Track entry (JObj props), w)"
    by (simp add: Track_dispatch_def f)
  have p: "Track_popularity (Track entry (JObj props)) = JNum (- 1)"
    by (simp add: Track_popularity_def f)
  from f d p show ?thesis by (simp add: requests_Track_fetchTrack)
qed

theorem Track_zero_popularity_witness:
  "Track_popularity (Track ''test'' (JObj [(''id'', JStr ''5jwDjl5FofuDgwITfcROhq''),
       (''uri'', JStr ''spotify:track:5jwDjl5FofuDgwITfcROhq''), (''popularity'', JNum 0)]))
     = JNum (- 1) \<and>
   requests (snd (snd (Track_dispatch (Track ''test'' (JObj [(''id'', JStr ''5jwDjl5FofuDgwITfcROhq''),
       (''uri'', JStr ''spotify:track:5jwDjl5FofuDgwITfcROhq''), (''popularity'', JNum 0)]),
       example_world))))
     = [''https://api.spotify.com/v1/tracks/5jwDjl5FofuDgwITfcROhq'']"
proof -
  have h: "map_of [(''id'', JStr ''5jwDjl5FofuDgwITfcROhq''),
       (''uri'', JStr ''spotify:track:5jwDjl5FofuDgwITfcROhq''), (''popularity'', JNum 0)]
       ''popularity'' = None \<or>
     map_of [(''id'', JStr ''5jwDjl5FofuDgwITfcROhq''),
       (''uri'', JStr ''spotify:track:5jwDjl5FofuDgwITfcROhq''), (''popularity'', JNum 0)]
       ''popularity'' = Some (JNum 0)"
    by simp
  have i: "encodeURIComponent (ToString (Track_id (Track ''test''
      (JObj [(''id'', JStr ''5jwDjl5FofuDgwITfcROhq''),
       (''uri'', JStr ''spotify:track:5jwDjl5FofuDgwITfcROhq''), (''popularity'', JNum 0)]))))
      = ''5jwDjl5FofuDgwITfcROhq''"
    by (simp add: Track_id_def Track_def Track_isFullResponse_def host_eval)
  note t = Track_zero_popularity [OF h, of "''test''" example_world]
  from t have p: "Track_popularity (Track ''test'' (JObj [(''id'', JStr ''5jwDjl5FofuDgwITfcROhq''),
       (''uri'', JStr ''spotify:track:5jwDjl5FofuDgwITfcROhq''), (''popularity'', JNum 0)]))
     = JNum (- 1)"
    by blast
  from t have "requests (snd (snd (Track_dispatch (Track ''test''
       (JObj [(''id'', JStr ''5jwDjl5FofuDgwITfcROhq''),
       (''uri'', JStr ''spotify:track:5jwDjl5FofuDgwITfcROhq''), (''popularity'', JNum 0)]),
       example_world))))
     = requests example_world @ [''https://api.spotify.com/v1/tracks/''
         @ encodeURIComponent (ToString (Track_id (Track ''test''
      (JObj [(''id'', JStr ''5jwDjl5FofuDgwITfcROhq''),
       (''uri'', JStr ''spotify:track:5jwDjl5FofuDgwITfcROhq''), (''popularity'', JNum 0)]))))]"
    by blast
  also have "\<dots> = [''https://api.spotify.com/v1/tracks/5jwDjl5FofuDgwITfcROhq'']"
    unfolding i by (simp add: example_world_def)
  finally show ?thesis using p by blast
qed

text \<open>
  An unresolved Track whose entry starts with \<open>spotify:track:\<close> is fetched by its id,
  with no search; every other unresolved Track is searched for by its entry, also
  when the entry is a web link, which \<open>dispatch\<close> does not test for.
\<close>
lemma Track_dispatch_URI:
  assumes "\<not> truthy (Track_response self)" "\<not> truthy (Track_responseSimple self)"
    and "Track_isURI (Track_entry self)"
  shows "Track_dispatch (self, w) = Track_fetchTrack (self, w)"
    and "requests (snd (snd (Track_dispatch (self, w))))
      = requests w @ [''https://api.spotify.com/v1/tracks/''
                        @ encodeURIComponent (drop 14 (Track_entry self))]"
    and "request (''https://api.spotify.com/v1/tracks/''
                        @ encodeURIComponent (drop 14 (Track_entry self))) w = (Inr result, w')
      \<Longrightarrow> Track_dispatch (self, w) = (Inr (TrackE (self\<lparr>Track_response := result\<rparr>)),
            (self\<lparr>Track_response := result\<rparr>, w'))"
proof -
  show d: "Track_dispatch (self, w) = Track_fetchTrack (self, w)"
    using assms by (simp add: Track_dispatch_def)
  have i: "Track_id self = JStr (drop 14 (Track_entry self))"
    using assms by (simp add: Track_id_def)
  show "requests (snd (snd (Track_dispatch (self, w))))
      = requests w @ [''https://api.spotify.com/v1/tracks/''
                        @ encodeURIComponent (drop 14 (Track_entry self))]"
    by (simp add: d requests_Track_fetchTrack i)
  assume "request (''https://api.spotify.com/v1/tracks/''
                        @ encodeURIComponent (drop 14 (Track_entry self))) w = (Inr result, w')"
  then show "Track_dispatch (self, w) = (Inr (TrackE (self\<lparr>Track_response := result\<rparr>)),
            (self\<lparr>Track_response := result\<rparr>, w'))"
    by (simp add: d Track_fetchTrack_def i Let_def Promise_then_def with_self_def)
qed

lemma Track_dispatch_not_URI:
  assumes "\<not> truthy (Track_response self)" "\<not> truthy (Track_responseSimple self)"
    and "\<not> Track_isURI (Track_entry self)"
  shows "Track_dispatch (self, w) = Track_searchForTrack (Track_entry self) (self, w)"
    and "requests (snd (snd (Track_dispatch (self, w))))
      = requests w @ [''https://api.spotify.com/v1/search?type=track&q=''
                        @ encodeURIComponent (Track_entry self)]"
  using assms by (simp_all add: Track_dispatch_def requests_Track_searchForTrack)

text \<open>
  C4, evaluated: the entry \<open>https://open.spotify.com/track/5jwDjl5FofuDgwITfcROhq\<close> is
  a link for \<open>isLink\<close>, and \<open>dispatch()\<close> makes one request, a search for the text of
  the link; the entry \<open>spotify:track:5jwDjl5FofuDgwITfcROhq\<close> is fetched by its id.
\<close>

theorem Track_dispatch_link_searches:
  "Track_isLink (Track_entry (Track ''https://open.spotify.com/track/5jwDjl5FofuDgwITfcROhq'' JUndefined)) \<and>
   requests (snd (snd (Track_dispatch
      (Track ''https://open.spotify.com/track/5jwDjl5FofuDgwITfcROhq'' JUndefined, example_world))))
     = [''https://api.spotify.com/v1/search?type=track&q=https%3A%2F%2Fopen.spotify.com%2Ftrack%2F5jwDjl5FofuDgwITfcROhq''] \<and>
   requests (snd (snd (Track_dispatch
      (Track ''spotify:track:5jwDjl5FofuDgwITfcROhq'' JUndefined, example_world))))
     = [''https://api.spotify.com/v1/tracks/5jwDjl5FofuDgwITfcROhq'']"
proof -
  let ?link = "Track ''https://open.spotify.com/track/5jwDjl5FofuDgwITfcROhq'' JUndefined"
  let ?uri = "Track ''spotify:track:5jwDjl5FofuDgwITfcROhq'' JUndefined"
  have l: "Track_entry ?link = ''https://open.spotify.com/track/5jwDjl5FofuDgwITfcROhq''"
    "\<not> truthy (Track_response ?link)" "\<not> truthy (Track_responseSimple ?link)"
    by (simp_all add: Track_def Track_isFullResponse_def trim_def is_whitespace_def Let_def)
  have u: "Track_entry ?uri = ''spotify:track:5jwDjl5FofuDgwITfcROhq''"
    "\<not> truthy (Track_response ?uri)" "\<not> truthy (Track_responseSimple ?uri)"
    by (simp_all add: Track_def Track_isFullResponse_def trim_def is_whitespace_def Let_def)
  have 1: "Track_isLink (Track_entry ?link)"
    unfolding l by (simp add: Track_isLink_def starts_with_ci_def ascii_lower_def Let_def)
  have 2: "\<not> Track_isURI (Track_entry ?link)"
    unfolding l by (simp add: Track_isURI_def starts_with_ci_def ascii_lower_def Let_def)
  have 3: "Track_isURI (Track_entry ?uri)"
    unfolding u by (simp add: Track_isURI_def starts_with_ci_def ascii_lower_def Let_def)
  have 4: "encodeURIComponent (Track_entry ?link)
     = ''https%3A%2F%2Fopen.spotify.com%2Ftrack%2F5jwDjl5FofuDgwITfcROhq''"
    unfolding l by (simp add: host_eval)
  have 5: "encodeURIComponent (drop 14 (Track_entry ?uri)) = ''5jwDjl5FofuDgwITfcROhq''"
    unfolding u by (simp add: host_eval)
  have 6: "requests example_world = []"
    by (simp add: example_world_def)
  from Track_dispatch_not_URI(2) [OF l(2) l(3) 2, of example_world]
    Track_dispatch_URI(2) [OF u(2) u(3) 3, of example_world] 1
  show ?thesis
    unfolding 4 5 6 by simp
qed

text \<open>
  C6, evaluated: the search for \<open>zzz\<close> finds nothing. \<open>dispatch()\<close> is fulfilled, with
  \<open>undefined\<close> and not with the Track; the Track is unchanged and its \<open>uri()\<close> is the
  empty string; the batch goes on to the next entry. The entries of the playlist then
  hold \<open>undefined\<close> in the Track's place, and \<open>Playlist.toString\<close> raises a TypeError
  on it. Had the slot held the Track, the Track would have been left out of the
  output.
\<close>
theorem Track_no_match_rendering:
  "fst (Track_dispatch (Track ''zzz'' JUndefined, example_world)) = Inr Undefined \<and>
   fst (snd (Track_dispatch (Track ''zzz'' JUndefined, example_world))) = Track ''zzz'' JUndefined \<and>
   Track_uri (Track ''zzz'' JUndefined) = JStr '''' \<and>
   fst (Playlist_fetchTracks [TrackE (Track ''zzz'' JUndefined), TrackE (Track ''test'' JUndefined)]
          example_world)
     = Inr [Entry Undefined,
            Entry (TrackE ((Track ''test'' JUndefined)\<lparr>Track_responseSimple := example_track_simple\<rparr>))] \<and>
   Playlist_toString [Entry Undefined,
            Entry (TrackE ((Track ''test'' JUndefined)\<lparr>Track_responseSimple := example_track_simple\<rparr>))]
     = Inl TypeError \<and>
   Playlist_toString [Entry (TrackE (Track ''zzz'' JUndefined)),
            Entry (TrackE ((Track ''test'' JUndefined)\<lparr>Track_responseSimple := example_track_simple\<rparr>))]
     = Inr ''spotify:track:5jwDjl5FofuDgwITfcROhq''"
proof -
  have 1: "Track_dispatch (Track ''zzz'' JUndefined, example_world)
     = (Inr Undefined, (Track ''zzz'' JUndefined,
         example_world\<lparr>requests := [''https://api.spotify.com/v1/search?type=track&q=zzz'']\<rparr>))"
    by (simp add: track_eval host_eval example_world_def example_respond_def)
  have 2: "Track_dispatch (Track ''test'' JUndefined,
         example_world\<lparr>requests := [''https://api.spotify.com/v1/search?type=track&q=zzz'']\<rparr>)
     = (Inr (TrackE ((Track ''test'' JUndefined)\<lparr>Track_responseSimple := example_track_simple\<rparr>)),
        ((Track ''test'' JUndefined)\<lparr>Track_responseSimple := example_track_simple\<rparr>,
         example_world\<lparr>requests := [''https://api.spotify.com/v1/search?type=track&q=zzz'',
            ''https://api.spotify.com/v1/search?type=track&q=test'']\<rparr>))"
    by (simp add: track_eval host_eval example_world_def example_respond_def
        example_track_simple_def)
  have 3: "Track_uri (Track ''zzz'' JUndefined) = JStr ''''"
    by (simp add: Track_uri_def Track_def Track_isFullResponse_def Let_def)
  have 4: "fst (Playlist_fetchTracks [TrackE (Track ''zzz'' JUndefined), TrackE (Track ''test'' JUndefined)]
          example_world)
     = Inr [Entry Undefined,
            Entry (TrackE ((Track ''test'' JUndefined)\<lparr>Track_responseSimple := example_track_simple\<rparr>))]"
    by (simp add: Playlist_fetchTracks_def Queue_dispatch_def Queue_resolveAll_one_at_a_time
        Promise_then_def Promise_resolve_def 1 2)
  have 5: "Playlist_toString [Entry Undefined,
            Entry (TrackE ((Track ''test'' JUndefined)\<lparr>Track_responseSimple := example_track_simple\<rparr>))]
     = Inl TypeError"
    by (simp add: Playlist_toString_def)
  have 6: "Playlist_toString [Entry (TrackE (Track ''zzz'' JUndefined)),
            Entry (TrackE ((Track ''test'' JUndefined)\<lparr>Track_responseSimple := example_track_simple\<rparr>))]
     = Inr ''spotify:track:5jwDjl5FofuDgwITfcROhq''"
    by (simp add: Playlist_toString_def track_eval host_eval example_track_simple_def)
  from 1 3 4 5 6 show ?thesis by simp
qed

text \<open>\<open>Playlist.toString\<close> raises whenever an element is \<open>undefined\<close>.\<close>

lemma toString_loop_Undefined:
  "Entry Undefined \<in> set entries \<Longrightarrow> \<exists>e. toString_loop result entries = Inl e"
  by (induction entries arbitrary: result) (auto split: sum.splits)

lemma Playlist_toString_Undefined:
  "Entry Undefined \<in> set entries \<Longrightarrow> \<exists>e. Playlist_toString entries = Inl e"
  using toString_loop_Undefined [of entries "[]"] by (auto simp: Playlist_toString_def)

section \<open>Dispatching an entry again: theorems\<close>

text \<open>
  C5 as stated fails for an Album: the first \<open>dispatch()\<close> of the album \<open>test\<close> makes
  two requests, the search and the fetch of the album, and is fulfilled with the
  Queue of the album's tracks; the second \<open>dispatch()\<close> of the same album makes the
  request for the album again.
\<close>
theorem Album_redispatch_counterexample:
  "fst (Album_dispatch (example_album, example_world))
     = Inr (Queue [Entry (TrackE (Track ''test'' example_track_simple))]) \<and>
   requests (snd (snd (Album_dispatch (example_album, example_world))))
     = [''https://api.spotify.com/v1/search?type=album&q=test'',
        ''https://api.spotify.com/v1/albums/ALB''] \<and>
   fst (Album_dispatch (snd (Album_dispatch (example_album, example_world))))
     = Inr (Queue [Entry (TrackE (Track ''test'' example_track_simple))]) \<and>
   requests (snd (snd (Album_dispatch (snd (Album_dispatch (example_album, example_world))))))
     = [''https://api.spotify.com/v1/search?type=album&q=test'',
        ''https://api.spotify.com/v1/albums/ALB'',
        ''https://api.spotify.com/v1/albums/ALB'']"
proof -
  let ?w1 = "example_world\<lparr>requests := [''https://api.spotify.com/v1/search?type=album&q=test'']\<rparr>"
  let ?a1 = "example_album\<lparr>Album_searchResponse := example_album_search\<rparr>"
  let ?w2 = "example_world\<lparr>requests := [''https://api.spotify.com/v1/search?type=album&q=test'',
        ''https://api.spotify.com/v1/albums/ALB''], global_albumResponse := example_album_record\<rparr>"
  let ?w3 = "example_world\<lparr>requests := [''https://api.spotify.com/v1/search?type=album&q=test'',
        ''https://api.spotify.com/v1/albums/ALB'', ''https://api.spotify.com/v1/albums/ALB''],
        global_albumResponse := example_album_record\<rparr>"
  have s: "Album_searchForAlbum ''test'' (example_album, example_world)
      = (Inr example_album_search, (?a1, ?w1))"
    by (simp add: Album_searchForAlbum_def Album_isSearchResponse_def Promise_then_def
        with_self_def request_def host_eval example_world_def example_respond_def
        example_album_search_def example_album_def)
  have i: "ToString (Album_id ?a1) = ''ALB''"
    by (simp add: Album_id_def example_album_def example_album_search_def host_eval)
  have f1: "Album_fetchAlbum (?a1, ?w1) = (Inr example_album_record, (?a1, ?w2))"
    unfolding Album_fetchAlbum_def Let_def prod.case i
    by (simp add: Album_isAlbumResponse_def Promise_then_def
        with_self_def request_def host_eval example_world_def example_respond_def
        example_album_record_def)
  have f2: "Album_fetchAlbum (?a1, ?w2) = (Inr example_album_record, (?a1, ?w3))"
    unfolding Album_fetchAlbum_def Let_def prod.case i
    by (simp add: Album_isAlbumResponse_def Promise_then_def
        with_self_def request_def host_eval example_world_def example_respond_def
        example_album_record_def)
  have c: "Album_createQueue ?a1 example_album_record
      = Inr (Queue [Entry (TrackE (Track ''test'' example_track_simple))])"
    by (simp add: Album_createQueue_def example_album_record_def example_album_def Queue_add_def)
  have ea: "Album_entry example_album = ''test''"
    "\<not> truthy (Album_searchResponse example_album)"
    "\<not> truthy (Album_albumResponse example_album)"
    by (simp_all add: example_album_def)
  have d1: "Album_dispatch (example_album, example_world)
      = (Inr (Queue [Entry (TrackE (Track ''test'' example_track_simple))]), (?a1, ?w2))"
    by (simp add: Album_dispatch_def Promise_then_def ea s f1 c)
  have "truthy (Album_searchResponse ?a1)"
    by (simp add: example_album_search_def)
  then have d2: "Album_dispatch (?a1, ?w2)
      = (Inr (Queue [Entry (TrackE (Track ''test'' example_track_simple))]), (?a1, ?w3))"
    by (simp add: Album_dispatch_def Promise_then_def f2 c)
  show ?thesis
    unfolding d1 snd_conv fst_conv d2 by (simp add: example_world_def)
qed

text \<open>
  C5, amended. The \<open>dispatch()\<close> of a Track that has its full response is fulfilled
  with the same Track and makes no request. The \<open>dispatch()\<close> of an Album that has a
  search result or an album record makes no search and exactly one request, the fetch
  of the album by its id. The \<open>dispatch()\<close> of an Artist, whatever it holds, begins
  with the request of the artist search.
\<close>

theorem Entry_redispatch:
  "(truthy (Track_response t) \<longrightarrow> Track_dispatch (t, w) = (Inr (TrackE t), (t, w))) \<and>
   (truthy (Album_searchResponse al) \<or> truthy (Album_albumResponse al) \<longrightarrow>
      requests (snd (snd (Album_dispatch (al, w))))
        = requests w @ [''https://api.spotify.com/v1/albums/''
                          @ encodeURIComponent (ToString (Album_id al))]) \<and>
   (\<exists>more. requests (snd (snd (Artist_dispatch (ar, w))))
        = requests w @ [''https://api.spotify.com/v1/search?type=artist&q=''
                          @ encodeURIComponent (Artist_entry ar)] @ more)"
  using Track_redispatch [of t w] Album_redispatch(1) [of al w] Artist_redispatch [of ar w]
  by blast

theorem Entry_redispatch_witness:
  "Track_dispatch (Track ''test'' example_track_full, example_world)
     = (Inr (TrackE (Track ''test'' example_track_full)),
        (Track ''test'' example_track_full, example_world)) \<and>
   requests (snd (snd (Album_dispatch
        (example_album\<lparr>Album_searchResponse := example_album_search\<rparr>, example_world))))
     = [''https://api.spotify.com/v1/albums/ALB'']"
proof -
  let ?t = "Track ''test'' example_track_full"
  let ?a = "example_album\<lparr>Album_searchResponse := example_album_search\<rparr>"
  note r = Entry_redispatch [of ?t example_world ?a "Artist ''test''"]
  have t: "truthy (Track_response ?t)"
    by (simp add: Track_def Track_isFullResponse_def example_track_full_def get_def Let_def)
  have a: "truthy (Album_searchResponse ?a) \<or> truthy (Album_albumResponse ?a)"
    by (simp add: example_album_def example_album_search_def)
  have i: "encodeURIComponent (ToString (Album_id ?a)) = ''ALB''"
    by (simp add: Album_id_def example_album_def example_album_search_def host_eval)
  from r t have 1: "Track_dispatch (?t, example_world) = (Inr (TrackE ?t), (?t, example_world))"
    by blast
  from r a have "requests (snd (snd (Album_dispatch (?a, example_world))))
        = requests example_world @ [''https://api.spotify.com/v1/albums/''
                          @ encodeURIComponent (ToString (Album_id ?a))]"
    by blast
  also have "\<dots> = [''https://api.spotify.com/v1/albums/ALB'']"
    unfolding i by (simp add: example_world_def)
  finally show ?thesis using 1 by blast
qed

lemma eq_char_of_iff: "c = char_of n \<longleftrightarrow> of_char c = take_bit 8 (n :: nat)"
  using char_of_eq_iff [of n c] by auto

section \<open>The host's sort and sort.stableSort: theorems\<close>

text \<open>The sort by insertion is a stable ordering in the sense of \<open>stable_sort\<close>.\<close>

lemma set_insert_by: "set (insert_by cmp x ys) = insert x (set ys)"
  by (induction ys) auto

lemma set_insertion_sort: "set (insertion_sort cmp xs) = set xs"
  by (induction xs) (auto simp: set_insert_by)

lemma mset_insert_by: "mset (insert_by cmp x ys) = add_mset x (mset ys)"
  by (induction ys) auto

lemma mset_insertion_sort: "mset (insertion_sort cmp xs) = mset xs"
  by (induction xs) (auto simp: mset_insert_by)

lemma filter_insert_by_neg: "\<not> P x \<Longrightarrow> filter P (insert_by cmp x ys) = filter P ys"
  by (induction ys) auto

lemma filter_insert_by_pos:
  "P x \<Longrightarrow> (\<forall>y\<in>set ys. 0 < cmp x y \<longrightarrow> \<not> P y) \<Longrightarrow>
   filter P (insert_by cmp x ys) = x # filter P ys"
  by (induction ys) auto

lemma consistent_on_zero_class:
  assumes "consistent_on S cmp" "a \<in> S" "x \<in> S" "y \<in> S" "cmp a x = 0" "cmp a y = 0"
  shows "cmp x y = 0"
proof -
  from assms have "cmp x a = 0" unfolding consistent_on_def by blast
  with assms show ?thesis unfolding consistent_on_def by blast
qed

lemma insertion_sort_stable:
  assumes c: "consistent_on S cmp" and a: "a \<in> S"
  shows "set xs \<subseteq> S \<Longrightarrow>
    filter (\<lambda>y. cmp a y = 0) (insertion_sort cmp xs) = filter (\<lambda>y. cmp a y = 0) xs"
proof (induction xs)
  case Nil
  show ?case by simp
next
  case (Cons x xs)
  then have xs: "set xs \<subseteq> S" and x: "x \<in> S" by auto
  note IH = Cons.IH [OF xs]
  show ?case
  proof (cases "cmp a x = 0")
    case False
    then show ?thesis by (simp add: filter_insert_by_neg IH)
  next
    case True
    have "\<forall>y\<in>set (insertion_sort cmp xs). 0 < cmp x y \<longrightarrow> cmp a y \<noteq> 0"
    proof (intro ballI impI notI)
      fix y assume y: "y \<in> set (insertion_sort cmp xs)" and pos: "0 < cmp x y" and z: "cmp a y = 0"
      from y xs have "y \<in> S" by (auto simp: set_insertion_sort)
      then have "cmp x y = 0" by (rule consistent_on_zero_class [OF c a x _ True z])
      with pos show False by simp
    qed
    with True have "filter (\<lambda>y. cmp a y = 0) (insert_by cmp x (insertion_sort cmp xs))
        = x # filter (\<lambda>y. cmp a y = 0) (insertion_sort cmp xs)"
      by (intro filter_insert_by_pos) auto
    with True IH show ?thesis by simp
  qed
qed

lemma consistent_on_flip:
  assumes "consistent_on S cmp" "x \<in> S" "y \<in> S" "0 < cmp x y"
  shows "cmp y x < 0"
proof (rule ccontr)
  assume "\<not> cmp y x < 0"
  then consider "cmp y x = 0" | "0 < cmp y x" by linarith
  then show False
  proof cases
    case 1
    with assms have "cmp x y = 0" unfolding consistent_on_def by blast
    with assms show False by simp
  next
    case 2
    with assms have "0 < cmp x x" unfolding consistent_on_def by blast
    moreover from assms have "cmp x x = 0" unfolding consistent_on_def by blast
    ultimately show False by simp
  qed
qed

lemma consistent_on_flip':
  assumes "consistent_on S cmp" "x \<in> S" "y \<in> S" "cmp x y < 0"
  shows "0 < cmp y x"
proof (rule ccontr)
  assume "\<not> 0 < cmp y x"
  then consider "cmp y x = 0" | "cmp y x < 0" by linarith
  then show False
  proof cases
    case 1
    with assms have "cmp x y = 0" unfolding consistent_on_def by blast
    with assms show False by simp
  next
    case 2
    with assms have "cmp x x < 0" unfolding consistent_on_def by blast
    moreover from assms have "cmp x x = 0" unfolding consistent_on_def by blast
    ultimately show False by simp
  qed
qed

lemma consistent_on_trans:
  assumes c: "consistent_on S cmp" and m: "x \<in> S" "y \<in> S" "z \<in> S"
    and xy: "cmp x y \<le> 0" and yz: "cmp y z \<le> 0"
  shows "cmp x z \<le> 0"
proof (rule ccontr)
  assume "\<not> cmp x z \<le> 0"
  then have xz: "0 < cmp x z" by simp
  then have zx: "cmp z x < 0" using c m by (auto intro: consistent_on_flip)
  consider "cmp x y = 0" "cmp y z = 0" | "cmp x y < 0" "cmp y z < 0"
    | "cmp x y = 0" "cmp y z < 0" | "cmp x y < 0" "cmp y z = 0"
    using xy yz by linarith
  then show False
  proof cases
    case 1
    with c m have "cmp x z = 0" unfolding consistent_on_def by blast
    with xz show False by simp
  next
    case 2
    with c m have "cmp x z < 0" unfolding consistent_on_def by blast
    with xz show False by simp
  next
    case 3
    from 3(2) zx c m have "cmp y x < 0" unfolding consistent_on_def by blast
    moreover from 3(1) c m have "cmp y x = 0" unfolding consistent_on_def by blast
    ultimately show False by simp
  next
    case 4
    from 4(1) zx c m have "cmp z y < 0" unfolding consistent_on_def by blast
    moreover from 4(2) c m have "cmp z y = 0" unfolding consistent_on_def by blast
    ultimately show False by simp
  qed
qed

lemma sorted_insert_by:
  assumes c: "consistent_on S cmp" and x: "x \<in> S"
  shows "set ys \<subseteq> S \<Longrightarrow> sorted_wrt (\<lambda>u v. cmp u v \<le> 0) ys \<Longrightarrow>
    sorted_wrt (\<lambda>u v. cmp u v \<le> 0) (insert_by cmp x ys)"
proof (induction ys)
  case Nil
  show ?case by simp
next
  case (Cons y ys)
  then have y: "y \<in> S" and ys: "set ys \<subseteq> S" by auto
  show ?case
  proof (cases "cmp x y \<le> 0")
    case True
    have "\<forall>z\<in>set ys. cmp x z \<le> 0"
    proof
      fix z assume z: "z \<in> set ys"
      with Cons.prems have "cmp y z \<le> 0" by auto
      with c x y True z ys show "cmp x z \<le> 0"
        by (intro consistent_on_trans [OF c x y _ True]) auto
    qed
    with True Cons.prems show ?thesis by simp
  next
    case False
    then have "cmp y x < 0" using c x y by (auto intro: consistent_on_flip)
    with False Cons show ?thesis by (auto simp: set_insert_by)
  qed
qed

lemma sorted_insertion_sort:
  assumes c: "consistent_on S cmp"
  shows "set xs \<subseteq> S \<Longrightarrow> sorted_wrt (\<lambda>u v. cmp u v \<le> 0) (insertion_sort cmp xs)"
  by (induction xs) (auto intro!: sorted_insert_by [OF c] simp: set_insertion_sort)

lemma stable_sort_insertion_sort: "stable_sort insertion_sort"
  unfolding stable_sort_def
proof (intro allI impI conjI ballI)
  fix cmp :: "'a \<Rightarrow> 'a \<Rightarrow> int" and xs a
  assume c: "consistent_on (set xs) cmp"
  show "mset (insertion_sort cmp xs) = mset xs"
    by (rule mset_insertion_sort)
  show "sorted_wrt (\<lambda>u v. cmp u v \<le> 0) (insertion_sort cmp xs)"
    using sorted_insertion_sort [OF c] by simp
  assume a: "a \<in> set xs"
  show "filter (\<lambda>y. cmp a y = 0) (insertion_sort cmp xs) = filter (\<lambda>y. cmp a y = 0) xs"
    using insertion_sort_stable [OF c a, of xs] by simp
qed

lemma stable_sortD:
  assumes "stable_sort srt" and "consistent_on (set xs) cmp"
  shows "mset (srt cmp xs) = mset xs"
    and "sorted_wrt (\<lambda>u v. cmp u v \<le> 0) (srt cmp xs)"
    and "a \<in> set xs \<Longrightarrow> filter (\<lambda>y. cmp a y = 0) (srt cmp xs) = filter (\<lambda>y. cmp a y = 0) xs"
    and "set (srt cmp xs) = set xs"
proof -
  note r = assms(1) [unfolded stable_sort_def, rule_format, OF assms(2)]
  from r show m: "mset (srt cmp xs) = mset xs" by simp
  from r show "sorted_wrt (\<lambda>u v. cmp u v \<le> 0) (srt cmp xs)" by simp
  from r show "a \<in> set xs \<Longrightarrow>
      filter (\<lambda>y. cmp a y = 0) (srt cmp xs) = filter (\<lambda>y. cmp a y = 0) xs"
    by simp
  from m show "set (srt cmp xs) = set xs" by (rule mset_eq_setD)
qed

lemma consistent_onD:
  assumes "consistent_on S cmp"
  shows "a \<in> S \<Longrightarrow> cmp a a = 0"
    and "a \<in> S \<Longrightarrow> b \<in> S \<Longrightarrow> cmp a b = 0 \<Longrightarrow> cmp b a = 0"
    and "a \<in> S \<Longrightarrow> b \<in> S \<Longrightarrow> d \<in> S \<Longrightarrow> cmp a b = 0 \<Longrightarrow> cmp b d = 0 \<Longrightarrow> cmp a d = 0"
    and "a \<in> S \<Longrightarrow> b \<in> S \<Longrightarrow> d \<in> S \<Longrightarrow> cmp a b < 0 \<Longrightarrow> cmp b d < 0 \<Longrightarrow> cmp a d < 0"
    and "a \<in> S \<Longrightarrow> b \<in> S \<Longrightarrow> d \<in> S \<Longrightarrow> cmp a b > 0 \<Longrightarrow> cmp b d > 0 \<Longrightarrow> cmp a d > 0"
  using assms unfolding consistent_on_def by blast+

lemma consistent_onI:
  assumes "\<And>a. a \<in> S \<Longrightarrow> cmp a a = 0"
    and "\<And>a b. a \<in> S \<Longrightarrow> b \<in> S \<Longrightarrow> cmp a b = 0 \<Longrightarrow> cmp b a = 0"
    and "\<And>a b d. a \<in> S \<Longrightarrow> b \<in> S \<Longrightarrow> d \<in> S \<Longrightarrow> cmp a b = 0 \<Longrightarrow> cmp b d = 0 \<Longrightarrow> cmp a d = 0"
    and "\<And>a b d. a \<in> S \<Longrightarrow> b \<in> S \<Longrightarrow> d \<in> S \<Longrightarrow> cmp a b < 0 \<Longrightarrow> cmp b d < 0 \<Longrightarrow> cmp a d < 0"
    and "\<And>a b d. a \<in> S \<Longrightarrow> b \<in> S \<Longrightarrow> d \<in> S \<Longrightarrow> cmp a b > 0 \<Longrightarrow> cmp b d > 0 \<Longrightarrow> cmp a d > 0"
  shows "consistent_on S cmp"
  unfolding consistent_on_def
proof (intro conjI ballI impI)
  fix a assume "a \<in> S" then show "cmp a a = 0" by (rule assms(1))
next
  fix a b assume "a \<in> S" "b \<in> S" "cmp a b = 0" then show "cmp b a = 0" by (rule assms(2))
next
  fix a b d assume "a \<in> S" "b \<in> S" "d \<in> S" "cmp a b = 0 \<and> cmp b d = 0"
  then show "cmp a d = 0" using assms(3) [of a b d] by simp
next
  fix a b d assume "a \<in> S" "b \<in> S" "d \<in> S" "cmp a b < 0 \<and> cmp b d < 0"
  then show "cmp a d < 0" using assms(4) [of a b d] by simp
next
  fix a b d assume "a \<in> S" "b \<in> S" "d \<in> S" "cmp a b > 0 \<and> cmp b d > 0"
  then show "cmp a d > 0" using assms(5) [of a b d] by simp
qed

lemma consistent_on_cong:
  assumes c: "consistent_on S c1" and agree: "\<forall>a\<in>S. \<forall>b\<in>S. c1 a b = c2 a b"
  shows "consistent_on S c2"
proof -
  have eq: "\<And>a b. a \<in> S \<Longrightarrow> b \<in> S \<Longrightarrow> c2 a b = c1 a b"
    using agree by simp
  note d = consistent_onD [OF c]
  show ?thesis
  proof (rule consistent_onI)
    fix a assume "a \<in> S" then show "c2 a a = 0" using d(1) [of a] by (simp add: eq)
  next
    fix a b assume "a \<in> S" "b \<in> S" "c2 a b = 0"
    then show "c2 b a = 0" using d(2) [of a b] by (simp add: eq)
  next
    fix a b e assume "a \<in> S" "b \<in> S" "e \<in> S" "c2 a b = 0" "c2 b e = 0"
    then show "c2 a e = 0" using d(3) [of a b e] by (simp add: eq)
  next
    fix a b e assume "a \<in> S" "b \<in> S" "e \<in> S" "c2 a b < 0" "c2 b e < 0"
    then show "c2 a e < 0" using d(4) [of a b e] by (simp add: eq)
  next
    fix a b e assume "a \<in> S" "b \<in> S" "e \<in> S" "c2 a b > 0" "c2 b e > 0"
    then show "c2 a e > 0" using d(5) [of a b e] by (simp add: eq)
  qed
qed

lemma consistent_on_lt_eq:
  assumes c: "consistent_on S cmp" and m: "x \<in> S" "y \<in> S" "z \<in> S"
    and xy: "cmp x y < 0" and yz: "cmp y z = 0"
  shows "cmp x z < 0"
proof (rule ccontr)
  assume "\<not> cmp x z < 0"
  moreover have "cmp x z \<le> 0"
    using consistent_on_trans [OF c m] xy yz by simp
  ultimately have xz: "cmp x z = 0" by simp
  from c m yz have "cmp z y = 0" unfolding consistent_on_def by blast
  with xz c m have "cmp x y = 0" unfolding consistent_on_def by blast
  with xy show False by simp
qed

lemma consistent_on_eq_lt:
  assumes c: "consistent_on S cmp" and m: "x \<in> S" "y \<in> S" "z \<in> S"
    and xy: "cmp x y = 0" and yz: "cmp y z < 0"
  shows "cmp x z < 0"
proof (rule ccontr)
  assume "\<not> cmp x z < 0"
  moreover have "cmp x z \<le> 0"
    using consistent_on_trans [OF c m] xy yz by simp
  ultimately have xz: "cmp x z = 0" by simp
  from c m xy have "cmp y x = 0" unfolding consistent_on_def by blast
  with xz c m have "cmp y z = 0" unfolding consistent_on_def by blast
  with yz show False by simp
qed

text \<open>
  For a consistent comparison function there is one sorted and stable arrangement.
\<close>

lemma stable_sorted_unique:
  assumes c: "consistent_on S cmp"
  shows "set ys \<subseteq> S \<Longrightarrow> set zs \<subseteq> S \<Longrightarrow>
    sorted_wrt (\<lambda>u v. cmp u v \<le> 0) ys \<Longrightarrow> sorted_wrt (\<lambda>u v. cmp u v \<le> 0) zs \<Longrightarrow>
    (\<forall>a\<in>S. filter (\<lambda>y. cmp a y = 0) ys = filter (\<lambda>y. cmp a y = 0) zs) \<Longrightarrow> ys = zs"
proof (induction ys arbitrary: zs)
  case Nil
  show ?case
  proof (cases zs)
    case Nil
    then show ?thesis by simp
  next
    case (Cons z zs')
    with Nil.prems have z: "z \<in> S" by simp
    with c have "cmp z z = 0" unfolding consistent_on_def by blast
    with Nil.prems(5) z Cons show ?thesis by auto
  qed
next
  case (Cons y ys)
  from Cons.prems have y: "y \<in> S" by simp
  with c have yy: "cmp y y = 0" unfolding consistent_on_def by blast
  from Cons.prems(5) y have fy: "filter (\<lambda>u. cmp y u = 0) (y # ys) = filter (\<lambda>u. cmp y u = 0) zs"
    by blast
  have "y \<in> set (filter (\<lambda>u. cmp y u = 0) (y # ys))"
    using yy by simp
  then have "y \<in> set (filter (\<lambda>u. cmp y u = 0) zs)"
    by (simp only: fy)
  then have yz: "y \<in> set zs" by simp
  then obtain z zs' where zs: "zs = z # zs'" by (cases zs) auto
  with Cons.prems have z: "z \<in> S" by simp
  with c have zz: "cmp z z = 0" unfolding consistent_on_def by blast
  from Cons.prems(5) z zs
  have fz: "filter (\<lambda>u. cmp z u = 0) (y # ys) = filter (\<lambda>u. cmp z u = 0) (z # zs')"
    by blast
  have "z \<in> set (filter (\<lambda>u. cmp z u = 0) (z # zs'))"
    using zz by simp
  then have "z \<in> set (filter (\<lambda>u. cmp z u = 0) (y # ys))"
    by (simp only: fz)
  then have zy: "z \<in> set (y # ys)" by (auto split: if_splits)
  have le1: "cmp y z \<le> 0"
    using zy Cons.prems(3) yy by auto
  have le2: "cmp z y \<le> 0"
    using yz zs Cons.prems(4) zz by auto
  have e: "cmp y z = 0"
  proof (rule ccontr)
    assume "cmp y z \<noteq> 0"
    with le1 have "cmp y z < 0" by simp
    with c y z have "0 < cmp z y" by (rule consistent_on_flip')
    with le2 show False by simp
  qed
  from fy zs yy e have yz_eq: "y = z" by simp
  have tails: "\<forall>a\<in>S. filter (\<lambda>u. cmp a u = 0) ys = filter (\<lambda>u. cmp a u = 0) zs'"
  proof
    fix a assume "a \<in> S"
    with Cons.prems(5) zs yz_eq
    have "filter (\<lambda>u. cmp a u = 0) (z # ys) = filter (\<lambda>u. cmp a u = 0) (z # zs')" by blast
    then show "filter (\<lambda>u. cmp a u = 0) ys = filter (\<lambda>u. cmp a u = 0) zs'"
      by (cases "cmp a z = 0") simp_all
  qed
  from Cons.prems zs have "ys = zs'"
    by (intro Cons.IH tails) auto
  with yz_eq zs show ?case by simp
qed

lemma stable_sort_cong:
  assumes s: "stable_sort srt" and c: "consistent_on (set q) c1"
    and agree: "\<forall>a\<in>set q. \<forall>b\<in>set q. c1 a b = c2 a b"
  shows "srt c1 q = srt c2 q"
proof -
  from c agree have c2: "consistent_on (set q) c2" by (rule consistent_on_cong)
  note r1 = stable_sortD [OF s c]
  note r2 = stable_sortD [OF s c2]
  note s1 = r1(4) and s2 = r2(4)
  have sorted2: "sorted_wrt (\<lambda>u v. c1 u v \<le> 0) (srt c2 q)"
    using r2(2) by (rule sorted_wrt_mono_rel [rotated]) (simp add: s2 agree)
  have filters: "\<forall>a\<in>set q. filter (\<lambda>y. c1 a y = 0) (srt c1 q) = filter (\<lambda>y. c1 a y = 0) (srt c2 q)"
  proof
    fix a assume a: "a \<in> set q"
    have "filter (\<lambda>y. c1 a y = 0) (srt c2 q) = filter (\<lambda>y. c2 a y = 0) (srt c2 q)"
      using a agree by (intro filter_cong refl) (simp add: s2)
    also have "\<dots> = filter (\<lambda>y. c2 a y = 0) q" using r2(3) a by simp
    also have "\<dots> = filter (\<lambda>y. c1 a y = 0) q"
      using a agree by (intro filter_cong refl) simp
    also have "\<dots> = filter (\<lambda>y. c1 a y = 0) (srt c1 q)" using r1(3) a by simp
    finally show "filter (\<lambda>y. c1 a y = 0) (srt c1 q) = filter (\<lambda>y. c1 a y = 0) (srt c2 q)"
      by simp
  qed
  show ?thesis
    using c _ _ r1(2) sorted2 filters
    by (rule stable_sorted_unique) (simp_all add: s1 s2)
qed

lemma consistent_on_gt_eq:
  assumes c: "consistent_on S cmp" and m: "x \<in> S" "y \<in> S" "z \<in> S"
    and xy: "0 < cmp x y" and yz: "cmp y z = 0"
  shows "0 < cmp x z"
proof -
  from c m(1,2) xy have yx: "cmp y x < 0" by (rule consistent_on_flip)
  from consistent_onD(2) [OF c m(2,3) yz] have zy: "cmp z y = 0" .
  from c m(3,2,1) zy yx have "cmp z x < 0" by (rule consistent_on_eq_lt)
  with c m(3,1) show ?thesis by (rule consistent_on_flip')
qed

lemma consistent_on_eq_gt:
  assumes c: "consistent_on S cmp" and m: "x \<in> S" "y \<in> S" "z \<in> S"
    and xy: "cmp x y = 0" and yz: "0 < cmp y z"
  shows "0 < cmp x z"
proof -
  from c m(2,3) yz have zy: "cmp z y < 0" by (rule consistent_on_flip)
  from consistent_onD(2) [OF c m(1,2) xy] have yx: "cmp y x = 0" .
  from c m(3,2,1) zy yx have "cmp z x < 0" by (rule consistent_on_lt_eq)
  with c m(3,1) show ?thesis by (rule consistent_on_flip')
qed

text \<open>The comparison function of \<open>stableSort\<close> on the pairs.\<close>

lemma stableSort_pairs:
  "stableSort lt sort_pairs arr (Some f) =
     Inr (map val (sort_pairs (callback (\<lambda>a b. f (val a) (val b)) (ascending (<) key))
                     (map_pair 0 arr)))"
  by (simp add: stableSort_def combine_def Array_sort_def)

lemma stableSort_default:
  "stableSort lt sort_pairs arr None = stableSort lt sort_pairs arr (Some (ascending lt identity))"
  by (simp add: stableSort_def)

lemma callback_key_apply:
  "callback (\<lambda>a b. f (val a) (val b)) (ascending (<) key) p q =
     (if f (val p) (val q) = 0
      then (if key p < key q then - 1 else if key q < key p then 1 else 0)
      else f (val p) (val q))"
  by (simp add: callback_def ascending_def Let_def)

lemma callback_key_consistent:
  fixes f :: "'a \<Rightarrow> 'a \<Rightarrow> int" and P :: "'a pair set"
  assumes c: "consistent_on (val ` P) f"
  shows "consistent_on P (callback (\<lambda>a b. f (val a) (val b)) (ascending (<) key))"
proof (rule consistent_onI)
  fix a assume "a \<in> P"
  then have "f (val a) (val a) = 0" using consistent_onD(1) [OF c] by simp
  then show "callback (\<lambda>a b. f (val a) (val b)) (ascending (<) key) a a = 0"
    by (simp add: callback_key_apply)
next
  fix a b assume m: "a \<in> P" "b \<in> P"
    and z: "callback (\<lambda>a b. f (val a) (val b)) (ascending (<) key) a b = 0"
  from z have 1: "f (val a) (val b) = 0" and 2: "key a = key b"
    by (auto simp: callback_key_apply split: if_splits)
  from m 1 have "f (val b) (val a) = 0" using consistent_onD(2) [OF c] by simp
  with 2 show "callback (\<lambda>a b. f (val a) (val b)) (ascending (<) key) b a = 0"
    by (simp add: callback_key_apply)
next
  fix a b d assume m: "a \<in> P" "b \<in> P" "d \<in> P"
    and z1: "callback (\<lambda>a b. f (val a) (val b)) (ascending (<) key) a b = 0"
    and z2: "callback (\<lambda>a b. f (val a) (val b)) (ascending (<) key) b d = 0"
  from z1 have 1: "f (val a) (val b) = 0" and 2: "key a = key b"
    by (auto simp: callback_key_apply split: if_splits)
  from z2 have 3: "f (val b) (val d) = 0" and 4: "key b = key d"
    by (auto simp: callback_key_apply split: if_splits)
  from m 1 3 have "f (val a) (val d) = 0" using consistent_onD(3) [OF c, of "val a" "val b" "val d"] by simp
  with 2 4 show "callback (\<lambda>a b. f (val a) (val b)) (ascending (<) key) a d = 0"
    by (simp add: callback_key_apply)
next
  fix a b d assume m: "a \<in> P" "b \<in> P" "d \<in> P"
    and z1: "callback (\<lambda>a b. f (val a) (val b)) (ascending (<) key) a b < 0"
    and z2: "callback (\<lambda>a b. f (val a) (val b)) (ascending (<) key) b d < 0"
  from m have vm: "val a \<in> val ` P" "val b \<in> val ` P" "val d \<in> val ` P" by simp_all
  from z1 consider "f (val a) (val b) < 0" | "f (val a) (val b) = 0" "key a < key b"
    by (auto simp: callback_key_apply split: if_splits)
  then show "callback (\<lambda>a b. f (val a) (val b)) (ascending (<) key) a d < 0"
  proof cases
    case 1
    from z2 consider "f (val b) (val d) < 0" | "f (val b) (val d) = 0"
      by (auto simp: callback_key_apply split: if_splits)
    then have "f (val a) (val d) < 0"
    proof cases
      case 1
      with \<open>f (val a) (val b) < 0\<close> show ?thesis
        using consistent_onD(4) [OF c vm] by simp
    next
      case 2
      with \<open>f (val a) (val b) < 0\<close> show ?thesis
        using consistent_on_lt_eq [OF c vm] by simp
    qed
    then show ?thesis by (simp add: callback_key_apply)
  next
    case 2
    from z2 consider "f (val b) (val d) < 0" | "f (val b) (val d) = 0" "key b < key d"
      by (auto simp: callback_key_apply split: if_splits)
    then show ?thesis
    proof cases
      case 1
      with 2 have "f (val a) (val d) < 0"
        using consistent_on_eq_lt [OF c vm] by simp
      then show ?thesis by (simp add: callback_key_apply)
    next
      case 2
      with \<open>f (val a) (val b) = 0\<close> have "f (val a) (val d) = 0"
        using consistent_onD(3) [OF c vm] by simp
      with 2 \<open>key a < key b\<close> show ?thesis by (simp add: callback_key_apply)
    qed
  qed
next
  fix a b d assume m: "a \<in> P" "b \<in> P" "d \<in> P"
    and z1: "callback (\<lambda>a b. f (val a) (val b)) (ascending (<) key) a b > 0"
    and z2: "callback (\<lambda>a b. f (val a) (val b)) (ascending (<) key) b d > 0"
  from m have vm: "val a \<in> val ` P" "val b \<in> val ` P" "val d \<in> val ` P" by simp_all
  from z1 consider "f (val a) (val b) > 0" | "f (val a) (val b) = 0" "key b < key a"
    by (auto simp: callback_key_apply split: if_splits)
  then show "callback (\<lambda>a b. f (val a) (val b)) (ascending (<) key) a d > 0"
  proof cases
    case 1
    from z2 consider "f (val b) (val d) > 0" | "f (val b) (val d) = 0"
      by (auto simp: callback_key_apply split: if_splits)
    then have "f (val a) (val d) > 0"
    proof cases
      case 1
      with \<open>f (val a) (val b) > 0\<close> show ?thesis
        using consistent_onD(5) [OF c vm] by simp
    next
      case 2
      with \<open>f (val a) (val b) > 0\<close> show ?thesis
        using consistent_on_gt_eq [OF c vm] by simp
    qed
    then show ?thesis by (simp add: callback_key_apply)
  next
    case 2
    from z2 consider "f (val b) (val d) > 0" | "f (val b) (val d) = 0" "key d < key b"
      by (auto simp: callback_key_apply split: if_splits)
    then show ?thesis
    proof cases
      case 1
      with 2 have "f (val a) (val d) > 0"
        using consistent_on_eq_gt [OF c vm] by simp
      then show ?thesis by (simp add: callback_key_apply)
    next
      case 2
      with \<open>f (val a) (val b) = 0\<close> have "f (val a) (val d) = 0"
        using consistent_onD(3) [OF c vm] by simp
      with 2 \<open>key b < key a\<close> show ?thesis by (simp add: callback_key_apply)
    qed
  qed
qed

lemma map_val_map_pair: "map val (map_pair i xs) = xs"
  by (induction xs arbitrary: i) auto

lemma map_key_map_pair: "map key (map_pair i xs) = [i ..< i + length xs]"
  by (induction xs arbitrary: i) (auto simp: upt_rec)

lemma sorted_key_unique:
  fixes l1 l2 :: "'a pair list"
  assumes m: "mset l1 = mset l2"
    and s1: "sorted_wrt (\<lambda>p q. key p \<le> key q) l1"
    and s2: "sorted_wrt (\<lambda>p q. key p \<le> key q) l2"
    and inj: "inj_on key (set l1)"
  shows "l1 = l2"
proof -
  from m have se: "set l1 = set l2" by (rule mset_eq_setD)
  from m have "mset (map key l1) = mset (map key l2)" by simp
  moreover from s1 have "sorted (map key l1)" by (simp add: sorted_wrt_map)
  moreover from s2 have "sorted (map key l2)" by (simp add: sorted_wrt_map)
  ultimately have "map key l1 = map key l2"
    by (metis properties_for_sort)
  with inj se show ?thesis
    using inj_on_map_eq_map [of key l1 l2] by simp
qed

text \<open>
  The sort of the pairs by \<open>fn\<close> and then by position, whatever stable ordering the
  host uses for it, gives the values in the order of a stable sort by \<open>fn\<close>.
\<close>

lemma stableSort_host_sort:
  fixes f :: "'a \<Rightarrow> 'a \<Rightarrow> int"
  assumes s: "stable_sort srt" and sp: "stable_sort srtp"
    and c: "consistent_on (set xs) f"
  shows "map val (srtp (callback (\<lambda>a b. f (val a) (val b)) (ascending (<) key)) (map_pair 0 xs))
         = srt f xs"
proof -
  define D :: "'a pair \<Rightarrow> 'a pair \<Rightarrow> int" where "D = callback (\<lambda>a b. f (val a) (val b)) (ascending (<) key)"
  define pairs where "pairs = map_pair 0 xs"
  define ps where "ps = srtp D pairs"
  have vp: "map val pairs = xs" by (simp add: pairs_def map_val_map_pair)
  then have vset: "val ` set pairs = set xs" by (metis set_map)
  have kp: "map key pairs = [0 ..< length xs]" by (simp add: pairs_def map_key_map_pair)
  then have dk: "distinct (map key pairs)" by simp
  then have inj: "inj_on key (set pairs)" by (simp add: distinct_map)
  have cD: "consistent_on (set pairs) D"
    unfolding D_def by (rule callback_key_consistent) (simp add: vset c)
  note rp = stable_sortD [OF sp cD, folded ps_def]
  note r = stable_sortD [OF s c]
  have setps: "set ps = set pairs" by (rule rp(4))
  have Dle: "\<And>p q. D p q \<le> 0 \<Longrightarrow> f (val p) (val q) \<le> 0"
    by (simp add: D_def callback_key_apply split: if_splits)
  have sorted_vals: "sorted_wrt (\<lambda>u v. f u v \<le> 0) (map val ps)"
    unfolding sorted_wrt_map using rp(2) by (rule sorted_wrt_mono_rel [rotated]) (rule Dle)
  have sorted_pairs: "sorted_wrt (\<lambda>p q. key p \<le> key q) pairs"
  proof -
    have "sorted (map key pairs)" by (simp add: kp)
    then show ?thesis by (simp add: sorted_wrt_map)
  qed
  have filters: "\<forall>a\<in>set xs. filter (\<lambda>y. f a y = 0) (map val ps) = filter (\<lambda>y. f a y = 0) (srt f xs)"
  proof
    fix a assume a: "a \<in> set xs"
    let ?Q = "\<lambda>p. f a (val p) = 0"
    have "sorted_wrt (\<lambda>p q. key p \<le> key q) (filter ?Q ps)"
    proof -
      have "sorted_wrt (\<lambda>p q. D p q \<le> 0) (filter ?Q ps)"
        using rp(2) by (rule sorted_wrt_filter)
      then show ?thesis
      proof (rule sorted_wrt_mono_rel [rotated])
        fix p q assume p: "p \<in> set (filter ?Q ps)" and q: "q \<in> set (filter ?Q ps)" and le: "D p q \<le> 0"
        from p q setps have pm: "val p \<in> set xs" and qm: "val q \<in> set xs"
          using vset by auto
        from p q have "f a (val p) = 0" "f a (val q) = 0" by simp_all
        with c a pm qm have "f (val p) (val q) = 0" by (rule consistent_on_zero_class)
        with le show "key p \<le> key q"
          by (simp add: D_def callback_key_apply split: if_splits)
      qed
    qed
    moreover have "sorted_wrt (\<lambda>p q. key p \<le> key q) (filter ?Q pairs)"
      using sorted_pairs by (rule sorted_wrt_filter)
    moreover have "mset (filter ?Q ps) = mset (filter ?Q pairs)"
      using rp(1) by (metis mset_filter)
    moreover have "inj_on key (set (filter ?Q ps))"
      using inj setps by (auto intro: inj_on_subset)
    ultimately have "filter ?Q ps = filter ?Q pairs"
      by (intro sorted_key_unique)
    then have "map val (filter ?Q ps) = map val (filter ?Q pairs)" by simp
    then have "filter (\<lambda>y. f a y = 0) (map val ps) = filter (\<lambda>y. f a y = 0) (map val pairs)"
      by (simp add: filter_map comp_def)
    also have "\<dots> = filter (\<lambda>y. f a y = 0) xs" by (simp add: vp)
    also have "\<dots> = filter (\<lambda>y. f a y = 0) (srt f xs)" using r(3) [OF a] by simp
    finally show "filter (\<lambda>y. f a y = 0) (map val ps) = filter (\<lambda>y. f a y = 0) (srt f xs)" .
  qed
  have "set (map val ps) \<subseteq> set xs" using setps vset by auto
  moreover have "set (srt f xs) \<subseteq> set xs" using r(4) by simp
  ultimately have "map val ps = srt f xs"
    using c sorted_vals r(2) filters by (intro stable_sorted_unique [OF c])
  then show ?thesis by (simp add: ps_def pairs_def D_def)
qed

lemma js_string_lt_irrefl: "\<not> js_string_lt s s"
  by (induction s) auto

lemma js_string_lt_trans: "js_string_lt s t \<Longrightarrow> js_string_lt t u \<Longrightarrow> js_string_lt s u"
proof (induction s t arbitrary: u rule: js_string_lt.induct)
  case 1
  then show ?case by simp
next
  case (2 y ys)
  then show ?case by (cases u) (auto split: if_splits)
next
  case (3 x xs)
  then show ?case by simp
next
  case (4 x xs y ys)
  show ?case
  proof (cases u)
    case Nil
    with 4 show ?thesis by simp
  next
    case (Cons z zs)
    with 4 show ?thesis by (auto split: if_splits)
  qed
qed

lemma js_string_lt_total: "s \<noteq> t \<Longrightarrow> js_string_lt s t \<or> js_string_lt t s"
proof (induction s t rule: js_string_lt.induct)
  case (4 x xs y ys)
  show ?case
  proof (cases "(of_char x :: nat) = of_char y")
    case True
    then have "x = y" by simp
    with 4 show ?thesis by auto
  next
    case False
    then show ?thesis by auto
  qed
qed auto

lemma consistent_on_ascending:
  assumes irrefl: "\<And>x. \<not> lt x x"
    and trans: "\<And>x y z. lt x y \<Longrightarrow> lt y z \<Longrightarrow> lt x z"
    and total: "\<And>x y. x \<noteq> y \<Longrightarrow> lt x y \<or> lt y x"
  shows "consistent_on S (ascending lt fn)"
proof (rule consistent_onI)
  fix a show "ascending lt fn a a = 0" by (simp add: ascending_def irrefl)
next
  fix a b assume "ascending lt fn a b = 0"
  then show "ascending lt fn b a = 0" by (simp add: ascending_def Let_def split: if_splits)
next
  fix a b d assume "ascending lt fn a b = 0" "ascending lt fn b d = 0"
  then have "fn a = fn b" "fn b = fn d"
    using total [of "fn a" "fn b"] total [of "fn b" "fn d"]
    by (auto simp: ascending_def Let_def split: if_splits)
  then show "ascending lt fn a d = 0" by (simp add: ascending_def irrefl)
next
  fix a b d assume "ascending lt fn a b < 0" "ascending lt fn b d < 0"
  then have "lt (fn a) (fn b)" "lt (fn b) (fn d)"
    by (auto simp: ascending_def Let_def split: if_splits)
  then have "lt (fn a) (fn d)" by (rule trans)
  then show "ascending lt fn a d < 0" by (simp add: ascending_def)
next
  fix a b d assume "ascending lt fn a b > 0" "ascending lt fn b d > 0"
  then have "lt (fn b) (fn a)" "lt (fn d) (fn b)"
    by (auto simp: ascending_def Let_def split: if_splits)
  then have *: "lt (fn d) (fn a)" using trans by blast
  then have "\<not> lt (fn a) (fn d)" using trans irrefl by blast
  with * show "ascending lt fn a d > 0" by (simp add: ascending_def)
qed

lemma SortCompare_ascending: "SortCompare string_of = ascending js_string_lt string_of"
  by (intro ext) (simp add: SortCompare_def ascending_def)

lemma consistent_on_SortCompare: "consistent_on S (SortCompare string_of)"
  unfolding SortCompare_ascending
proof (rule consistent_on_ascending)
  fix x show "\<not> js_string_lt x x" by (rule js_string_lt_irrefl)
next
  fix x y z assume "js_string_lt x y" "js_string_lt y z"
  then show "js_string_lt x z" by (rule js_string_lt_trans)
next
  fix x y :: string assume "x \<noteq> y"
  then show "js_string_lt x y \<or> js_string_lt y x" by (rule js_string_lt_total)
qed

lemma stable_sort_singleton:
  assumes s: "stable_sort srt"
  shows "srt cmp [] = []" and "consistent_on {x} cmp \<Longrightarrow> srt cmp [x] = [x]"
proof -
  have "consistent_on (set []) cmp" by (simp add: consistent_on_def)
  from stable_sortD(1) [OF s this] show "srt cmp [] = []" by simp
next
  assume "consistent_on {x} cmp"
  then have "consistent_on (set [x]) cmp" by simp
  from stable_sortD(1) [OF s this] show "srt cmp [x] = [x]" 
    by (metis mset_single_iff_right mset.simps(1) mset.simps(2))
qed

lemma consistent_on_descending:
  assumes irrefl: "\<And>x. \<not> lt x x"
    and trans: "\<And>x y z. lt x y \<Longrightarrow> lt y z \<Longrightarrow> lt x z"
    and total: "\<And>x y. x \<noteq> y \<Longrightarrow> lt x y \<or> lt y x"
  shows "consistent_on S (descending lt fn)"
proof -
  have d: "\<And>a b. descending lt fn a b = ascending lt fn b a"
    using irrefl trans by (auto simp: descending_def ascending_def Let_def)
  note c = consistent_on_ascending [where lt = lt and S = S and fn = fn, OF irrefl trans total]
  show ?thesis
  proof (rule consistent_onI)
    fix a assume "a \<in> S" then show "descending lt fn a a = 0"
      using consistent_onD(1) [OF c] by (simp add: d)
  next
    fix a b assume "a \<in> S" "b \<in> S" "descending lt fn a b = 0"
    then show "descending lt fn b a = 0"
      using consistent_onD(2) [OF c, where a = b and b = a] by (simp add: d)
  next
    fix a b e assume "a \<in> S" "b \<in> S" "e \<in> S" "descending lt fn a b = 0" "descending lt fn b e = 0"
    then show "descending lt fn a e = 0"
      using consistent_onD(3) [OF c, where a = e and b = b and d = a] by (simp add: d)
  next
    fix a b e assume "a \<in> S" "b \<in> S" "e \<in> S" "descending lt fn a b < 0" "descending lt fn b e < 0"
    then show "descending lt fn a e < 0"
      using consistent_onD(4) [OF c, where a = e and b = b and d = a] by (simp add: d)
  next
    fix a b e assume "a \<in> S" "b \<in> S" "e \<in> S" "descending lt fn a b > 0" "descending lt fn b e > 0"
    then show "descending lt fn a e > 0"
      using consistent_onD(5) [OF c, where a = e and b = b and d = a] by (simp add: d)
  qed
qed

text \<open>The quicksort in three parts is a stable ordering as well.\<close>

lemma mset_three_parts:
  "mset (filter (\<lambda>x. f x < 0) xs) + mset (filter (\<lambda>x. f x = 0) xs) + mset (filter (\<lambda>x. 0 < f x) xs)
     = mset (xs :: 'a list)" for f :: "'a \<Rightarrow> int"
  by (induction xs) auto

lemma mset_quicksort: "mset (quicksort cmp xs) = mset xs"
proof (induction cmp xs rule: quicksort.induct)
  case (1 cmp)
  show ?case by simp
next
  case (2 cmp p xs)
  then show ?case
    using mset_three_parts [of "\<lambda>x. cmp x p" xs] by (simp add: ac_simps)
qed

lemma set_quicksort: "set (quicksort cmp xs) = set xs"
  using mset_quicksort [of cmp xs] by (rule mset_eq_setD)

lemma sorted_wrt_all:
  "(\<And>u v. u \<in> set l \<Longrightarrow> v \<in> set l \<Longrightarrow> R u v) \<Longrightarrow> sorted_wrt R l"
  by (induction l) auto

lemma sorted_quicksort:
  "consistent_on S cmp \<Longrightarrow> set xs \<subseteq> S \<Longrightarrow>
   sorted_wrt (\<lambda>u v. cmp u v \<le> 0) (quicksort cmp xs)"
proof (induction cmp xs rule: quicksort.induct)
  case (1 cmp)
  show ?case by simp
next
  case (2 cmp p xs)
  from "2.prems" have c: "consistent_on S cmp" and p: "p \<in> S" and xs: "set xs \<subseteq> S"
    by auto
  let ?L = "filter (\<lambda>x. cmp x p < 0) xs"
  let ?E = "filter (\<lambda>x. cmp x p = 0) xs"
  let ?G = "filter (\<lambda>x. 0 < cmp x p) xs"
  have sL: "sorted_wrt (\<lambda>u v. cmp u v \<le> 0) (quicksort cmp ?L)"
    using xs by (intro "2.IH"(1) c) auto
  have sG: "sorted_wrt (\<lambda>u v. cmp u v \<le> 0) (quicksort cmp ?G)"
    using xs by (intro "2.IH"(2) c) auto
  have pE: "\<And>v. v \<in> set ?E \<Longrightarrow> cmp p v = 0"
  proof -
    fix v assume "v \<in> set ?E"
    with xs have "v \<in> S" "cmp v p = 0" by auto
    then show "cmp p v = 0" using consistent_onD(2) [OF c _ p, of v] by simp
  qed
  have pG: "\<And>v. v \<in> set ?G \<Longrightarrow> cmp p v < 0"
  proof -
    fix v assume "v \<in> set ?G"
    with xs have "v \<in> S" "0 < cmp v p" by auto
    then show "cmp p v < 0" using consistent_on_flip [OF c _ p, of v] by simp
  qed
  have sE: "sorted_wrt (\<lambda>u v. cmp u v \<le> 0) ?E"
  proof (rule sorted_wrt_all)
    fix u v assume u: "u \<in> set ?E" and v: "v \<in> set ?E"
    from u have up: "cmp u p = 0" by simp
    from v have pv: "cmp p v = 0" by (rule pE)
    from u v xs have m: "u \<in> S" "v \<in> S" by auto
    from consistent_onD(3) [OF c m(1) p m(2) up pv] show "cmp u v \<le> 0" by simp
  qed
  have EG: "\<And>u v. u \<in> set ?E \<Longrightarrow> v \<in> set ?G \<Longrightarrow> cmp u v \<le> 0"
  proof -
    fix u v assume u: "u \<in> set ?E" and v: "v \<in> set ?G"
    from u v xs have m: "u \<in> S" "v \<in> S" by auto
    from u have up: "cmp u p = 0" by simp
    from consistent_on_eq_lt [OF c m(1) p m(2) up pG [OF v]] show "cmp u v \<le> 0" by simp
  qed
  have Lp: "\<And>u v. u \<in> set ?L \<Longrightarrow> v = p \<or> v \<in> set ?E \<or> v \<in> set ?G \<Longrightarrow> cmp u v \<le> 0"
  proof -
    fix u v assume u: "u \<in> set ?L" and v: "v = p \<or> v \<in> set ?E \<or> v \<in> set ?G"
    from u xs have um: "u \<in> S" and up: "cmp u p < 0" by auto
    from v consider "v = p" | "v \<in> set ?E" | "v \<in> set ?G" by blast
    then show "cmp u v \<le> 0"
    proof cases
      case 1
      with up show ?thesis by simp
    next
      case 2
      with xs have vm: "v \<in> S" by auto
      from consistent_on_lt_eq [OF c um p vm up pE [OF 2]] show ?thesis by simp
    next
      case 3
      with xs have vm: "v \<in> S" by auto
      from consistent_onD(4) [OF c um p vm up pG [OF 3]] show ?thesis by simp
    qed
  qed
  have pEG: "\<And>v. v \<in> set ?E \<or> v \<in> set ?G \<Longrightarrow> cmp p v \<le> 0"
  proof -
    fix v assume "v \<in> set ?E \<or> v \<in> set ?G"
    then show "cmp p v \<le> 0"
    proof
      assume "v \<in> set ?E" from pE [OF this] show ?thesis by simp
    next
      assume "v \<in> set ?G" from pG [OF this] show ?thesis by simp
    qed
  qed
  have 1: "sorted_wrt (\<lambda>u v. cmp u v \<le> 0) (?E @ quicksort cmp ?G)"
    unfolding sorted_wrt_append set_quicksort using sE sG EG by blast
  have 2: "sorted_wrt (\<lambda>u v. cmp u v \<le> 0) (p # ?E @ quicksort cmp ?G)"
    unfolding sorted_wrt.simps set_append set_quicksort Un_iff using 1 pEG by blast
  have 3: "set (p # ?E @ quicksort cmp ?G) = insert p (set ?E \<union> set ?G)"
    by (simp add: set_quicksort)
  have "sorted_wrt (\<lambda>u v. cmp u v \<le> 0)
      (quicksort cmp ?L @ (p # ?E @ quicksort cmp ?G))"
    unfolding sorted_wrt_append 3 set_quicksort [of cmp ?L]
    using sL 2 Lp by blast
  then show ?case by simp
qed

lemma filter_filter_all:
  "(\<And>y. y \<in> set xs \<Longrightarrow> C y \<Longrightarrow> Q y) \<Longrightarrow> filter C (filter Q xs) = filter C xs"
  by (induction xs) auto

lemma filter_filter_none:
  "(\<And>y. y \<in> set xs \<Longrightarrow> C y \<Longrightarrow> \<not> Q y) \<Longrightarrow> filter C (filter Q xs) = []"
  by (induction xs) auto

lemma quicksort_stable:
  assumes a: "a \<in> S"
  shows "consistent_on S cmp \<Longrightarrow> set xs \<subseteq> S \<Longrightarrow>
    filter (\<lambda>y. cmp a y = 0) (quicksort cmp xs) = filter (\<lambda>y. cmp a y = 0) xs"
proof (induction cmp xs rule: quicksort.induct)
  case (1 cmp)
  show ?case by simp
next
  case (2 cmp p xs)
  from "2.prems" have c: "consistent_on S cmp" and p: "p \<in> S" and xs: "set xs \<subseteq> S"
    by auto
  let ?C = "\<lambda>y. cmp a y = 0"
  let ?L = "filter (\<lambda>x. cmp x p < 0) xs"
  let ?E = "filter (\<lambda>x. cmp x p = 0) xs"
  let ?G = "filter (\<lambda>x. 0 < cmp x p) xs"
  have iL: "filter ?C (quicksort cmp ?L) = filter ?C ?L"
    using xs by (intro "2.IH"(1) c) auto
  have iG: "filter ?C (quicksort cmp ?G) = filter ?C ?G"
    using xs by (intro "2.IH"(2) c) auto
  have ya: "\<And>y. y \<in> set xs \<Longrightarrow> cmp a y = 0 \<Longrightarrow> cmp y a = 0"
    using consistent_onD(2) [OF c a] xs by auto
  consider "cmp a p = 0" | "cmp a p < 0" | "0 < cmp a p" by linarith
  then show ?case
  proof cases
    case 1
    have yp: "\<And>y. y \<in> set xs \<Longrightarrow> cmp a y = 0 \<Longrightarrow> cmp y p = 0"
    proof -
      fix y assume y: "y \<in> set xs" and "cmp a y = 0"
      with ya have "cmp y a = 0" by simp
      with 1 y xs show "cmp y p = 0" using consistent_onD(3) [OF c _ a p, of y] by auto
    qed
    have "filter ?C ?L = []" by (intro filter_filter_none) (auto dest: yp)
    moreover have "filter ?C ?G = []" by (intro filter_filter_none) (auto dest: yp)
    moreover have "filter ?C ?E = filter ?C xs" by (intro filter_filter_all) (auto dest: yp)
    ultimately show ?thesis using 1 by (simp add: iL iG)
  next
    case 2
    have yp: "\<And>y. y \<in> set xs \<Longrightarrow> cmp a y = 0 \<Longrightarrow> cmp y p < 0"
    proof -
      fix y assume y: "y \<in> set xs" and "cmp a y = 0"
      with ya have "cmp y a = 0" by simp
      with 2 y xs show "cmp y p < 0" using consistent_on_eq_lt [OF c _ a p, of y] by auto
    qed
    have "filter ?C ?E = []" by (intro filter_filter_none) (auto dest: yp)
    moreover have "filter ?C ?G = []" by (intro filter_filter_none) (auto dest: yp)
    moreover have "filter ?C ?L = filter ?C xs" by (intro filter_filter_all) (auto dest: yp)
    ultimately show ?thesis using 2 by (simp add: iL iG)
  next
    case 3
    have yp: "\<And>y. y \<in> set xs \<Longrightarrow> cmp a y = 0 \<Longrightarrow> 0 < cmp y p"
    proof -
      fix y assume y: "y \<in> set xs" and "cmp a y = 0"
      with ya have "cmp y a = 0" by simp
      with 3 y xs show "0 < cmp y p" using consistent_on_eq_gt [OF c _ a p, of y] by auto
    qed
    have "filter ?C ?E = []" by (intro filter_filter_none) (auto dest: yp)
    moreover have "filter ?C ?L = []" by (intro filter_filter_none) (auto dest: yp)
    moreover have "filter ?C ?G = filter ?C xs" by (intro filter_filter_all) (auto dest: yp)
    ultimately show ?thesis using 3 by (simp add: iL iG)
  qed
qed

lemma stable_sort_quicksort: "stable_sort quicksort"
  unfolding stable_sort_def
proof (intro allI impI conjI ballI)
  fix cmp :: "'a \<Rightarrow> 'a \<Rightarrow> int" and xs a
  assume c: "consistent_on (set xs) cmp"
  show "mset (quicksort cmp xs) = mset xs"
    by (rule mset_quicksort)
  show "sorted_wrt (\<lambda>u v. cmp u v \<le> 0) (quicksort cmp xs)"
    using sorted_quicksort [OF c] by simp
  assume a: "a \<in> set xs"
  show "filter (\<lambda>y. cmp a y = 0) (quicksort cmp xs) = filter (\<lambda>y. cmp a y = 0) xs"
    using quicksort_stable [OF a c, of xs] by simp
qed

text \<open>
  The host's \<open><\<close> on two elements whose conversion to a primitive gives strings, as
  it does for the objects of a Queue (a Track by its \<open>toString()\<close>, the others by the
  host's \<open>[object Object]\<close>), is the order of their string conversions.
\<close>

lemma item_lt_strings:
  "item_ToPrimitive a = Inr (JStr s) \<Longrightarrow> item_ToPrimitive b = Inr (JStr t) \<Longrightarrow>
   item_lt a b = js_string_lt (item_string a) (item_string b)"
  by (simp add: item_lt_def item_string_def)

section \<open>Queue.sort: theorems\<close>

text \<open>
  \<open>undefined\<close> before an object, and a comparison function that is constantly 0:
  whatever stable ordering the host uses, its sort moves \<open>undefined\<close> behind the
  object, and \<open>stableSort\<close> leaves the two as they are.
\<close>

lemma Queue_sort_undefined_last:
  assumes s: "stable_sort sort_defined" and sp: "stable_sort sort_pairs"
    and u: "is_undefined u" and t: "\<not> is_undefined t"
  shows "Queue_sort is_undefined sort_defined string_of (Some (\<lambda>a b. 0)) [u, t] = [t, u]"
    and "stableSort lt sort_pairs [u, t] (Some (\<lambda>a b. 0)) = Inr [u, t]"
proof -
  have c: "\<And>S :: 'a set. consistent_on S (\<lambda>a b. 0)" by (simp add: consistent_on_def)
  from stable_sort_singleton(2) [OF s c] u t
  show "Queue_sort is_undefined sort_defined string_of (Some (\<lambda>a b. 0)) [u, t] = [t, u]"
    by (simp add: Queue_sort_def Array_sort_def)
  have "stableSort lt sort_pairs [u, t] (Some (\<lambda>a b. 0)) = Inr (insertion_sort (\<lambda>a b. 0) [u, t])"
    by (simp only: stableSort_pairs stableSort_host_sort [OF stable_sort_insertion_sort sp c])
  then show "stableSort lt sort_pairs [u, t] (Some (\<lambda>a b. 0)) = Inr [u, t]"
    by simp
qed

text \<open>
  Before ECMAScript 2019 the host's sort did not have to be stable. With an ordering
  that sorts but turns around the elements that compare equal, \<open>Queue.sort\<close> turns
  two Artists around, and \<open>stableSort\<close>, on the same host, does not: the positions
  in its pairs leave no two pairs equal.
\<close>

lemma Queue_sort_unstable_host:
  "Queue_sort item_is_undefined (\<lambda>cmp xs. insertion_sort cmp (rev xs)) item_string None
     [Entry (ArtistE (Artist ''b'')), Entry (ArtistE (Artist ''a''))]
     = [Entry (ArtistE (Artist ''a'')), Entry (ArtistE (Artist ''b''))] \<and>
   stableSort item_lt (\<lambda>cmp xs. insertion_sort cmp (rev xs))
     [Entry (ArtistE (Artist ''b'')), Entry (ArtistE (Artist ''a''))] None
     = Inr [Entry (ArtistE (Artist ''b'')), Entry (ArtistE (Artist ''a''))]"
proof -
  have 1: "\<And>x y. item_lt (Entry (ArtistE x)) (Entry (ArtistE y)) = False"
    by (simp add: item_lt_def js_string_lt_irrefl)
  have 2: "\<And>x y. SortCompare item_string (Entry (ArtistE x)) (Entry (ArtistE y)) = 0"
    by (simp add: SortCompare_def item_string_def js_string_lt_irrefl)
  show ?thesis
    by (simp add: Queue_sort_def Array_sort_def stableSort_def combine_def callback_def
        ascending_def identity_def 1 2 Let_def)
qed

text \<open>
  For a comparison function that is not consistent ECMAScript leaves the order to
  the host, and the two sorts may differ on a stable host too. Three Tracks of
  popularity 2, 3 and 1, compared by popularity with a difference of 1 counted as
  equal (2 equals 3 and 1, but 1 is less than 3), on a host that sorts by quicksort:
  \<open>Queue.sort\<close> leaves them as they are, and \<open>stableSort\<close>, whose pairs are never
  equal, puts the Track of popularity 1 before the one of popularity 3.
\<close>

lemma Queue_sort_inconsistent_comparator:
  "Queue_sort item_is_undefined quicksort item_string
     (Some (\<lambda>a b. let x = (case a of Entry (TrackE t) \<Rightarrow> (case Track_popularity t of JNum n \<Rightarrow> n | _ \<Rightarrow> 0) | _ \<Rightarrow> 0);
                     y = (case b of Entry (TrackE t) \<Rightarrow> (case Track_popularity t of JNum n \<Rightarrow> n | _ \<Rightarrow> 0) | _ \<Rightarrow> 0)
                 in if \<bar>x - y\<bar> \<le> 1 then 0 else if x < y then - 1 else 1))
     [Entry (TrackE (Track ''b'' (JObj [(''popularity'', JNum 2)]))),
      Entry (TrackE (Track ''c'' (JObj [(''popularity'', JNum 3)]))),
      Entry (TrackE (Track ''a'' (JObj [(''popularity'', JNum 1)])))]
     = [Entry (TrackE (Track ''b'' (JObj [(''popularity'', JNum 2)]))),
        Entry (TrackE (Track ''c'' (JObj [(''popularity'', JNum 3)]))),
        Entry (TrackE (Track ''a'' (JObj [(''popularity'', JNum 1)])))] \<and>
   stableSort item_lt quicksort
     [Entry (TrackE (Track ''b'' (JObj [(''popularity'', JNum 2)]))),
      Entry (TrackE (Track ''c'' (JObj [(''popularity'', JNum 3)]))),
      Entry (TrackE (Track ''a'' (JObj [(''popularity'', JNum 1)])))]
     (Some (\<lambda>a b. let x = (case a of Entry (TrackE t) \<Rightarrow> (case Track_popularity t of JNum n \<Rightarrow> n | _ \<Rightarrow> 0) | _ \<Rightarrow> 0);
                     y = (case b of Entry (TrackE t) \<Rightarrow> (case Track_popularity t of JNum n \<Rightarrow> n | _ \<Rightarrow> 0) | _ \<Rightarrow> 0)
                 in if \<bar>x - y\<bar> \<le> 1 then 0 else if x < y then - 1 else 1))
     = Inr [Entry (TrackE (Track ''b'' (JObj [(''popularity'', JNum 2)]))),
            Entry (TrackE (Track ''a'' (JObj [(''popularity'', JNum 1)]))),
            Entry (TrackE (Track ''c'' (JObj [(''popularity'', JNum 3)])))]"
proof -
  have p: "Track_popularity (Track ''b'' (JObj [(''popularity'', JNum 2)])) = JNum 2"
    "Track_popularity (Track ''c'' (JObj [(''popularity'', JNum 3)])) = JNum 3"
    "Track_popularity (Track ''a'' (JObj [(''popularity'', JNum 1)])) = JNum 1"
    by (simp_all add: track_eval host_eval)
  show ?thesis
    by (simp add: Queue_sort_def Array_sort_def stableSort_def combine_def callback_def
        ascending_def p Let_def)
qed

text \<open>
  C2 as stated fails on a Queue that holds \<open>undefined\<close>, which is what \<open>dispatch\<close>
  leaves in the slot of a Track whose search finds nothing. \<open>Queue.sort\<close> is the
  host's \<open>Array.prototype.sort\<close> and not \<open>stableSort\<close>: the host moves \<open>undefined\<close>
  to the end without comparing it, while \<open>stableSort\<close> sorts pairs, which are
  objects, and leaves an element that compares equal to the others where it was.
  Evaluated on \<open>undefined\<close> followed by the Track \<open>test\<close>, with the sort by insertion
  as the host's ordering: once with a comparison function that is constantly 0, and
  once with none, where \<open>undefined < track\<close> and \<open>track < undefined\<close> are both false
  for the ascending-by-identity comparison of \<open>stableSort\<close>.
\<close>

theorem Queue_sort_undefined_counterexample:
  "Queue_sort item_is_undefined insertion_sort item_string (Some (\<lambda>a b. 0))
     [Entry Undefined, Entry (TrackE (Track ''test'' JUndefined))]
     = [Entry (TrackE (Track ''test'' JUndefined)), Entry Undefined] \<and>
   stableSort item_lt insertion_sort
     [Entry Undefined, Entry (TrackE (Track ''test'' JUndefined))] (Some (\<lambda>a b. 0))
     = Inr [Entry Undefined, Entry (TrackE (Track ''test'' JUndefined))] \<and>
   Queue_sort item_is_undefined insertion_sort item_string None
     [Entry Undefined, Entry (TrackE (Track ''test'' JUndefined))]
     = [Entry (TrackE (Track ''test'' JUndefined)), Entry Undefined] \<and>
   stableSort item_lt insertion_sort
     [Entry Undefined, Entry (TrackE (Track ''test'' JUndefined))] None
     = Inr [Entry Undefined, Entry (TrackE (Track ''test'' JUndefined))]"
proof -
  have 1: "Track_toString (Track ''test'' JUndefined) = Inr (JStr ''test'')"
    by (simp add: track_eval host_eval)
  have 2: "item_lt (Entry Undefined) (Entry (TrackE (Track ''test'' JUndefined))) = False"
    "item_lt (Entry (TrackE (Track ''test'' JUndefined))) (Entry Undefined) = False"
    by (simp_all add: item_lt_def 1)
  show ?thesis
    by (simp add: Queue_sort_def Array_sort_def stableSort_def combine_def callback_def
        ascending_def identity_def 2 Let_def)
qed

text \<open>
  C2, amended. \<open>Queue.sort(fn)\<close> is the host's sort of the array: the elements that
  are \<open>undefined\<close> go to the end, and the others are ordered by \<open>fn\<close>, or by their
  string conversions when no \<open>fn\<close> is given. When the host's sort is stable, as
  ECMAScript 2019 requires, and \<open>fn\<close> is a consistent comparison function on the
  defined elements, the defined elements come out as \<open>stableSort\<close> returns them: a
  permutation of them, in non-descending order, in which the elements that compare
  equal keep their relative order. With no \<open>fn\<close> the same holds when the host's \<open><\<close>
  on the defined elements is the order of their string conversions, as it is for
  objects; the host's default order and the ascending-by-identity order of
  \<open>stableSort\<close> are then the same. On a Queue that holds no \<open>undefined\<close> the two
  sorts return the same array. The comparison function, the string conversion and
  \<open><\<close> are functions that return: a Queue on which one of them raises is outside
  the statement.
\<close>

theorem Queue_sort_host_sort:
  fixes q :: "'a list" and fn :: "('a \<Rightarrow> 'a \<Rightarrow> int) option"
  assumes s: "stable_sort sort_defined" and sp: "stable_sort sort_pairs"
    and f: "case fn of
              Some cmp \<Rightarrow> consistent_on {x \<in> set q. \<not> is_undefined x} cmp
            | None \<Rightarrow> \<forall>a\<in>set q. \<forall>b\<in>set q. \<not> is_undefined a \<and> \<not> is_undefined b \<longrightarrow>
                        lt a b = js_string_lt (string_of a) (string_of b)"
  shows "let defined = filter (\<lambda>x. \<not> is_undefined x) q;
             cmp = (case fn of None \<Rightarrow> SortCompare string_of | Some f \<Rightarrow> f);
             result = sort_defined cmp defined
         in Queue_sort is_undefined sort_defined string_of fn q = result @ filter is_undefined q \<and>
            stableSort lt sort_pairs defined fn = Inr result \<and>
            mset result = mset defined \<and>
            sorted_wrt (\<lambda>u v. cmp u v \<le> 0) result \<and>
            (\<forall>a\<in>set defined. filter (\<lambda>y. cmp a y = 0) result = filter (\<lambda>y. cmp a y = 0) defined) \<and>
            ((\<forall>x\<in>set q. \<not> is_undefined x) \<longrightarrow>
               stableSort lt sort_pairs q fn
                 = Inr (Queue_sort is_undefined sort_defined string_of fn q))"
proof -
  define defined where "defined = filter (\<lambda>x. \<not> is_undefined x) q"
  define cmp where "cmp = (case fn of None \<Rightarrow> SortCompare string_of | Some f \<Rightarrow> f)"
  have sd: "set defined = {x \<in> set q. \<not> is_undefined x}" by (simp add: defined_def)
  have cons: "consistent_on (set defined) cmp"
  proof (cases fn)
    case None
    then show ?thesis by (simp add: cmp_def consistent_on_SortCompare)
  next
    case (Some g)
    with f show ?thesis by (simp add: cmp_def sd)
  qed
  note r = stable_sortD [OF s cons]
  have 1: "Queue_sort is_undefined sort_defined string_of fn q
      = sort_defined cmp defined @ filter is_undefined q"
    by (simp add: Queue_sort_def Array_sort_def cmp_def defined_def)
  have 2: "stableSort lt sort_pairs defined fn = Inr (sort_defined cmp defined)"
  proof (cases fn)
    case (Some g)
    then have "cmp = g" by (simp add: cmp_def)
    with cons Some show ?thesis
      by (simp add: stableSort_pairs stableSort_host_sort [OF s sp])
  next
    case None
    then have c: "cmp = SortCompare string_of" by (simp add: cmp_def)
    have agree: "\<forall>a\<in>set defined. \<forall>b\<in>set defined. cmp a b = ascending lt identity a b"
    proof (intro ballI)
      fix a b assume "a \<in> set defined" "b \<in> set defined"
      with f None have "lt a b = js_string_lt (string_of a) (string_of b)"
        and "lt b a = js_string_lt (string_of b) (string_of a)"
        by (simp_all add: sd)
      then show "cmp a b = ascending lt identity a b"
        by (simp add: c SortCompare_def ascending_def identity_def)
    qed
    from cons agree have c': "consistent_on (set defined) (ascending lt identity)"
      by (rule consistent_on_cong)
    have "stableSort lt sort_pairs defined fn
        = Inr (sort_defined (ascending lt identity) defined)"
      using None by (simp add: stableSort_default stableSort_pairs stableSort_host_sort [OF s sp c'])
    also have "sort_defined (ascending lt identity) defined = sort_defined cmp defined"
      using stable_sort_cong [OF s cons agree] by simp
    finally show ?thesis .
  qed
  have 3: "(\<forall>x\<in>set q. \<not> is_undefined x) \<longrightarrow>
      stableSort lt sort_pairs q fn = Inr (Queue_sort is_undefined sort_defined string_of fn q)"
  proof
    assume a: "\<forall>x\<in>set q. \<not> is_undefined x"
    then have "defined = q" by (simp add: defined_def)
    moreover from a have "filter is_undefined q = []" by (simp add: filter_empty_conv)
    ultimately show "stableSort lt sort_pairs q fn
        = Inr (Queue_sort is_undefined sort_defined string_of fn q)"
      using 1 2 by simp
  qed
  have 4: "\<forall>a\<in>set defined. filter (\<lambda>y. cmp a y = 0) (sort_defined cmp defined)
      = filter (\<lambda>y. cmp a y = 0) defined"
    using r(3) by blast
  from 1 2 3 4 r(1) r(2) show ?thesis
    unfolding Let_def defined_def [symmetric] cmp_def [symmetric] by blast
qed

theorem Queue_sort_host_sort_witness:
  "Queue_sort item_is_undefined insertion_sort item_string None
     [Entry (TrackE (Track ''foo'' JUndefined)), Entry (ArtistE (Artist ''b'')), Entry Undefined,
      Entry (TrackE (Track ''bar'' JUndefined)), Entry (ArtistE (Artist ''a''))]
     = [Entry (ArtistE (Artist ''b'')), Entry (ArtistE (Artist ''a'')),
        Entry (TrackE (Track ''bar'' JUndefined)), Entry (TrackE (Track ''foo'' JUndefined)),
        Entry Undefined] \<and>
   stableSort item_lt insertion_sort
     [Entry (TrackE (Track ''foo'' JUndefined)), Entry (ArtistE (Artist ''b'')),
      Entry (TrackE (Track ''bar'' JUndefined)), Entry (ArtistE (Artist ''a''))] None
     = Inr [Entry (ArtistE (Artist ''b'')), Entry (ArtistE (Artist ''a'')),
            Entry (TrackE (Track ''bar'' JUndefined)), Entry (TrackE (Track ''foo'' JUndefined))] \<and>
   stableSort item_lt insertion_sort
     [Entry (TrackE (Track ''foo'' JUndefined)), Entry (TrackE (Track ''test'' example_track_full)),
      Entry (TrackE (Track ''bar'' JUndefined))]
     (Some (descending (<) (\<lambda>x. case x of
                                Entry (TrackE t) \<Rightarrow> (case Track_popularity t of JNum n \<Rightarrow> n | _ \<Rightarrow> 0)
                              | _ \<Rightarrow> 0)))
     = Inr [Entry (TrackE (Track ''test'' example_track_full)),
            Entry (TrackE (Track ''foo'' JUndefined)), Entry (TrackE (Track ''bar'' JUndefined))] \<and>
   Queue_sort item_is_undefined insertion_sort item_string
     (Some (descending (<) (\<lambda>x. case x of
                                Entry (TrackE t) \<Rightarrow> (case Track_popularity t of JNum n \<Rightarrow> n | _ \<Rightarrow> 0)
                              | _ \<Rightarrow> 0)))
     [Entry (TrackE (Track ''foo'' JUndefined)), Entry (TrackE (Track ''test'' example_track_full)),
      Entry (TrackE (Track ''bar'' JUndefined))]
     = [Entry (TrackE (Track ''test'' example_track_full)),
        Entry (TrackE (Track ''foo'' JUndefined)), Entry (TrackE (Track ''bar'' JUndefined))]"
proof -
  let ?foo = "Entry (TrackE (Track ''foo'' JUndefined))"
  let ?bar = "Entry (TrackE (Track ''bar'' JUndefined))"
  let ?test = "Entry (TrackE (Track ''test'' example_track_full))"
  let ?a = "Entry (ArtistE (Artist ''a'')) :: entry item"
  let ?b = "Entry (ArtistE (Artist ''b'')) :: entry item"
  let ?q = "[?foo, ?b, Entry Undefined, ?bar, ?a]"
  let ?pop = "\<lambda>x :: entry item. case x of
      Entry (TrackE t) \<Rightarrow> (case Track_popularity t of JNum n \<Rightarrow> n | _ \<Rightarrow> 0)
    | _ \<Rightarrow> (0 :: int)"
  let ?r = "[?foo, ?test, ?bar]"
  have s: "Track_toString (Track ''foo'' JUndefined) = Inr (JStr ''foo'')"
    "Track_toString (Track ''bar'' JUndefined) = Inr (JStr ''bar'')"
    by (simp_all add: track_eval host_eval)
  have p: "item_ToPrimitive ?foo = Inr (JStr ''foo'')" "item_ToPrimitive ?bar = Inr (JStr ''bar'')"
    "item_ToPrimitive ?a = Inr (JStr ''[object Object]'')"
    "item_ToPrimitive ?b = Inr (JStr ''[object Object]'')"
    by (simp_all add: s)
  have str: "item_string ?foo = ''foo''" "item_string ?bar = ''bar''"
    "item_string ?a = ''[object Object]''" "item_string ?b = ''[object Object]''"
    by (simp_all add: item_string_def s)
  have h1: "case None :: (entry item \<Rightarrow> entry item \<Rightarrow> int) option of
              Some cmp \<Rightarrow> consistent_on {x \<in> set ?q. \<not> item_is_undefined x} cmp
            | None \<Rightarrow> \<forall>a\<in>set ?q. \<forall>b\<in>set ?q. \<not> item_is_undefined a \<and> \<not> item_is_undefined b \<longrightarrow>
                        item_lt a b = js_string_lt (item_string a) (item_string b)"
    by (simp add: item_lt_def item_string_def s)
  have pop: "?pop ?foo = - 1" "?pop ?bar = - 1" "?pop ?test = 42"
    by (simp_all add: track_eval host_eval example_track_full_def)
  have h2: "case Some (descending (<) ?pop) of
              Some cmp \<Rightarrow> consistent_on {x \<in> set ?r. \<not> item_is_undefined x} cmp
            | None \<Rightarrow> \<forall>a\<in>set ?r. \<forall>b\<in>set ?r. \<not> item_is_undefined a \<and> \<not> item_is_undefined b \<longrightarrow>
                        item_lt a b = js_string_lt (item_string a) (item_string b)"
    by (simp only: option.case) (rule consistent_on_descending, auto)
  have d1: "filter (\<lambda>x. \<not> item_is_undefined x) ?q = [?foo, ?b, ?bar, ?a]"
    and d1': "filter item_is_undefined ?q = [Entry Undefined]"
    and d2: "filter (\<lambda>x. \<not> item_is_undefined x) ?r = ?r"
    and d2': "filter item_is_undefined ?r = []"
    by simp_all
  have e1: "insertion_sort (SortCompare item_string) [?foo, ?b, ?bar, ?a] = [?b, ?a, ?bar, ?foo]"
    by (simp add: SortCompare_def str)
  have e2: "insertion_sort (descending (<) ?pop) ?r = [?test, ?foo, ?bar]"
    by (simp add: descending_def pop del: item.case entry.case)
  note t1 = Queue_sort_host_sort [where lt = item_lt and string_of = item_string,
      OF stable_sort_insertion_sort stable_sort_insertion_sort h1,
      unfolded Let_def option.case d1 d1' e1]
  note t2 = Queue_sort_host_sort [where lt = item_lt and string_of = item_string,
      OF stable_sort_insertion_sort stable_sort_insertion_sort h2,
      unfolded Let_def option.case d2 d2' e2]
  from t1 have "Queue_sort item_is_undefined insertion_sort item_string None ?q
      = [?b, ?a, ?bar, ?foo, Entry Undefined]"
    and "stableSort item_lt insertion_sort [?foo, ?b, ?bar, ?a] None = Inr [?b, ?a, ?bar, ?foo]"
    by simp_all
  moreover from t2 have "stableSort item_lt insertion_sort ?r (Some (descending (<) ?pop))
      = Inr [?test, ?foo, ?bar]"
    and "Queue_sort item_is_undefined insertion_sort item_string (Some (descending (<) ?pop)) ?r
      = [?test, ?foo, ?bar]"
    by simp_all
  ultimately show ?thesis by simp
qed

section \<open>Queue.dedup: theorems\<close>

text \<open>
  As long as the rule of \<open>contains\<close> gives an answer on every two elements of the
  Queue, \<open>dedup()\<close> returns, with the elements that no element kept before them is
  equal to under the rule.
\<close>

lemma Queue_contains_rule:
  assumes "\<forall>entry\<in>set q. \<exists>b. contains_rule equals same entry obj = Inr b"
  shows "Queue_contains equals same q obj
     = Inr (\<exists>entry\<in>set q. contains_rule equals same entry obj = Inr True)"
  using assms
proof (induction q)
  case Nil
  show ?case by simp
next
  case (Cons entry rest)
  then obtain b where b: "contains_rule equals same entry obj = Inr b" by auto
  from Cons have IH: "Queue_contains equals same rest obj
     = Inr (\<exists>entry\<in>set rest. contains_rule equals same entry obj = Inr True)" by simp
  from b show ?case
    by (auto simp: contains_rule_def IH split: sum.splits option.splits)
qed

lemma dedup_loop_rule:
  assumes "\<forall>x\<in>set acc \<union> set xs. \<forall>y\<in>set xs. \<exists>b. contains_rule equals same x y = Inr b"
  shows "dedup_loop equals same acc xs
     = Inr (acc @ first_occurrences (\<lambda>x y. contains_rule equals same x y = Inr True)
              (filter (\<lambda>y. \<not> (\<exists>entry\<in>set acc. contains_rule equals same entry y = Inr True)) xs))"
  using assms
proof (induction xs arbitrary: acc)
  case Nil
  show ?case by simp
next
  case (Cons x xs)
  let ?eq = "\<lambda>x y. contains_rule equals same x y = Inr True"
  have c: "Queue_contains equals same acc x = Inr (\<exists>entry\<in>set acc. ?eq entry x)"
    using Cons.prems by (intro Queue_contains_rule) auto
  show ?case
  proof (cases "\<exists>entry\<in>set acc. ?eq entry x")
    case True
    have "dedup_loop equals same acc xs
        = Inr (acc @ first_occurrences ?eq (filter (\<lambda>y. \<not> (\<exists>entry\<in>set acc. ?eq entry y)) xs))"
      using Cons.prems by (intro Cons.IH) auto
    with True c show ?thesis by auto
  next
    case False
    have "dedup_loop equals same (acc @ [x]) xs
        = Inr ((acc @ [x]) @ first_occurrences ?eq
                 (filter (\<lambda>y. \<not> (\<exists>entry\<in>set (acc @ [x]). ?eq entry y)) xs))"
      using Cons.prems by (intro Cons.IH) auto
    moreover have "filter (\<lambda>y. \<not> (\<exists>entry\<in>set (acc @ [x]). ?eq entry y)) xs
        = filter (\<lambda>y. \<not> ?eq x y) (filter (\<lambda>y. \<not> (\<exists>entry\<in>set acc. ?eq entry y)) xs)"
      by (auto intro: filter_cong)
    ultimately show ?thesis using False c by (auto simp: Queue_add_def)
  qed
qed

lemma Queue_dedup_rule:
  assumes "\<forall>x\<in>set q. \<forall>y\<in>set q. \<exists>b. contains_rule equals same x y = Inr b"
  shows "Queue_dedup equals same q
     = Inr (first_occurrences (\<lambda>x y. contains_rule equals same x y = Inr True) q)"
  using dedup_loop_rule [of "[]" q equals same] assms by (simp add: Queue_dedup_def)

lemma first_occurrences_fixed:
  "first_occurrences eq (first_occurrences eq xs) = first_occurrences eq xs"
proof (induction eq xs rule: first_occurrences.induct)
  case (1 eq)
  show ?case by simp
next
  case (2 eq x xs)
  have "set (first_occurrences eq (filter (\<lambda>y. \<not> eq x y) xs)) \<subseteq> set (filter (\<lambda>y. \<not> eq x y) xs)"
    by (rule set_first_occurrences)
  then have "filter (\<lambda>y. \<not> eq x y) (first_occurrences eq (filter (\<lambda>y. \<not> eq x y) xs))
      = first_occurrences eq (filter (\<lambda>y. \<not> eq x y) xs)"
    by (auto simp: filter_id_conv)
  with "2.IH" show ?case by simp
qed

lemma subseq_first_occurrences: "subseq (first_occurrences eq xs) xs"
proof (induction eq xs rule: first_occurrences.induct)
  case (1 eq)
  show ?case by simp
next
  case (2 eq x xs)
  have "subseq (filter (\<lambda>y. \<not> eq x y) xs) xs" by simp
  with "2.IH" have "subseq (first_occurrences eq (filter (\<lambda>y. \<not> eq x y) xs)) xs"
    by (rule subseq_order.trans)
  then show ?case by simp
qed

text \<open>
  On the Queues that \<open>dedup()\<close> returns on, the result is a fixed point of \<open>dedup()\<close>
  and a subsequence of the Queue.
\<close>

lemma Queue_dedup_idempotent:
  assumes "\<forall>x\<in>set q. \<forall>y\<in>set q. \<exists>b. contains_rule equals same x y = Inr b"
  shows "\<exists>r. Queue_dedup equals same q = Inr r \<and> Queue_dedup equals same r = Inr r \<and> subseq r q"
proof -
  let ?eq = "\<lambda>x y. contains_rule equals same x y = Inr True"
  let ?r = "first_occurrences ?eq q"
  have 1: "Queue_dedup equals same q = Inr ?r" using assms by (rule Queue_dedup_rule)
  have "set ?r \<subseteq> set q" by (rule set_first_occurrences)
  with assms have "\<forall>x\<in>set ?r. \<forall>y\<in>set ?r. \<exists>b. contains_rule equals same x y = Inr b" by blast
  then have "Queue_dedup equals same ?r = Inr (first_occurrences ?eq ?r)" by (rule Queue_dedup_rule)
  then have 2: "Queue_dedup equals same ?r = Inr ?r" by (simp add: first_occurrences_fixed)
  from 1 2 subseq_first_occurrences [of ?eq q] show ?thesis by blast
qed

text \<open>
  \<open>contains\<close> reads the property \<open>equals\<close> of every kept element: once \<open>undefined\<close> is
  kept, the next element makes it raise.
\<close>

lemma Queue_dedup_Undefined_first:
  "Queue_dedup slot_equals slot_same ((a, Entry Undefined) # x # rest) = Inl TypeError"
  by (simp add: Queue_dedup_def Queue_add_def)

text \<open>
  C8, evaluated. The playlist with the lines \<open>zzz\<close> and \<open>test\<close>, of which the first
  finds nothing, has the entries \<open>undefined\<close> and the Track \<open>test\<close> once they are
  fetched, and \<open>Playlist.dispatch\<close> calls \<open>dedup()\<close> on them next. \<open>dedup()\<close> does
  not keep the first occurrences of these entries: it raises a TypeError, when
  \<open>contains\<close> reads \<open>equals\<close> of the \<open>undefined\<close> it kept; and in the other order, when
  \<open>Track.equals\<close> calls \<open>toString()\<close> on \<open>undefined\<close>. Of the Tracks foo, foo, bar
  (three objects) it keeps the first foo and bar.
\<close>

theorem Queue_dedup_undefined:
  "fst (Playlist_fetchTracks [TrackE (Track ''zzz'' JUndefined), TrackE (Track ''test'' JUndefined)]
          example_world)
     = Inr [Entry Undefined,
            Entry (TrackE ((Track ''test'' JUndefined)\<lparr>Track_responseSimple := example_track_simple\<rparr>))] \<and>
   Queue_dedup slot_equals slot_same
     [(0, Entry Undefined),
      (1, Entry (TrackE ((Track ''test'' JUndefined)\<lparr>Track_responseSimple := example_track_simple\<rparr>)))]
     = Inl TypeError \<and>
   Queue_dedup slot_equals slot_same
     [(0, Entry (TrackE ((Track ''test'' JUndefined)\<lparr>Track_responseSimple := example_track_simple\<rparr>))),
      (1, Entry Undefined)]
     = Inl TypeError \<and>
   Queue_dedup slot_equals slot_same
     [(0, Entry (TrackE (Track ''foo'' JUndefined))), (1, Entry (TrackE (Track ''foo'' JUndefined))),
      (2, Entry (TrackE (Track ''bar'' JUndefined)))]
     = Inr [(0, Entry (TrackE (Track ''foo'' JUndefined))), (2, Entry (TrackE (Track ''bar'' JUndefined)))]"
proof -
  let ?t = "(Track ''test'' JUndefined)\<lparr>Track_responseSimple := example_track_simple\<rparr>"
  have 1: "Track_dispatch (Track ''zzz'' JUndefined, example_world)
     = (Inr Undefined, (Track ''zzz'' JUndefined,
         example_world\<lparr>requests := [''https://api.spotify.com/v1/search?type=track&q=zzz'']\<rparr>))"
    by (simp add: track_eval host_eval example_world_def example_respond_def)
  have 2: "Track_dispatch (Track ''test'' JUndefined,
         example_world\<lparr>requests := [''https://api.spotify.com/v1/search?type=track&q=zzz'']\<rparr>)
     = (Inr (TrackE ?t),
        (?t, example_world\<lparr>requests := [''https://api.spotify.com/v1/search?type=track&q=zzz'',
            ''https://api.spotify.com/v1/search?type=track&q=test'']\<rparr>))"
    by (simp add: track_eval host_eval example_world_def example_respond_def
        example_track_simple_def)
  have 3: "fst (Playlist_fetchTracks [TrackE (Track ''zzz'' JUndefined), TrackE (Track ''test'' JUndefined)]
          example_world)
     = Inr [Entry Undefined, Entry (TrackE ?t)]"
    by (simp add: Playlist_fetchTracks_def Queue_dispatch_def Queue_resolveAll_one_at_a_time
        Promise_then_def Promise_resolve_def 1 2)
  have 4: "Queue_dedup slot_equals slot_same [(0, Entry Undefined), (1, Entry (TrackE ?t))]
     = Inl TypeError"
    by (rule Queue_dedup_Undefined_first)
  have s: "Track_toString ?t = Inr (JStr ''Test - Somebody'')"
    "Track_toString (Track ''foo'' JUndefined) = Inr (JStr ''foo'')"
    "Track_toString (Track ''bar'' JUndefined) = Inr (JStr ''bar'')"
    by (simp_all add: track_eval host_eval example_track_simple_def)
  have 5: "Queue_dedup slot_equals slot_same [(0, Entry (TrackE ?t)), (1, Entry Undefined)]
     = Inl TypeError"
    by (simp add: Queue_dedup_def Queue_add_def Track_equals_def String_toLowerCase_def s)
  have e: "Track_equals (Track ''foo'' JUndefined) (Entry (TrackE (Track ''foo'' JUndefined))) = Inr True"
    "Track_equals (Track ''foo'' JUndefined) (Entry (TrackE (Track ''bar'' JUndefined))) = Inr False"
    by (simp_all add: Track_equals_def String_toLowerCase_def s toLowerCase_def lower_char_def
        eq_char_of_iff)
  have 6: "Queue_dedup slot_equals slot_same
     [(0, Entry (TrackE (Track ''foo'' JUndefined))), (1, Entry (TrackE (Track ''foo'' JUndefined))),
      (2, Entry (TrackE (Track ''bar'' JUndefined)))]
     = Inr [(0, Entry (TrackE (Track ''foo'' JUndefined))), (2, Entry (TrackE (Track ''bar'' JUndefined)))]"
    by (simp add: Queue_dedup_def Queue_add_def e)
  from 3 4 5 6 show ?thesis by simp
qed

section \<open>Queue.group: the order of the buckets\<close>

text \<open>
  C3, evaluated. Three tracks grouped by album, of the albums \<open>25\<close>, \<open>21\<close> and \<open>25\<close>:
  the buckets are properties of a host array, the keys \<open>25\<close> and \<open>21\<close> are array
  indices, and \<open>for (var k in map)\<close> enumerates them in ascending order, so that the
  track of \<open>21\<close> comes out first, and not in the order in which the keys first appear
  (the second equation). On the keys \<open>1\<close>, \<open>2\<close>, \<open>1\<close> of the repository's test the
  two orders are the same. A key that names a member of every array, such as \<open>push\<close>,
  finds that member in place of a bucket, and \<open>group\<close> raises a TypeError.
\<close>

theorem Queue_group_index_keys:
  "Queue_group array_members fst
     [(''25'', ''Hello''), (''21'', ''Rolling in the Deep''), (''25'', ''Water Under the Bridge'')]
     = Inr [(''21'', ''Rolling in the Deep''), (''25'', ''Hello''), (''25'', ''Water Under the Bridge'')] \<and>
   grouped fst (first_appearance (map fst
       [(''25'', ''Hello''), (''21'', ''Rolling in the Deep''), (''25'', ''Water Under the Bridge'')]))
     [(''25'', ''Hello''), (''21'', ''Rolling in the Deep''), (''25'', ''Water Under the Bridge'')]
     = [(''25'', ''Hello''), (''25'', ''Water Under the Bridge''), (''21'', ''Rolling in the Deep'')] \<and>
   Queue_group array_members fst [(''1'', ''foo''), (''2'', ''bar''), (''1'', ''baz'')]
     = Inr [(''1'', ''foo''), (''1'', ''baz''), (''2'', ''bar'')] \<and>
   Queue_group array_members fst [(''Adele'', ''Hello''), (''push'', ''bar'')] = Inl TypeError"
proof -
  note e = is_array_index_def array_index_def is_digit_def numeral_value_def index_value_def
    grouped_def first_appearance_def enumeration_order_def
  have 1: "\<forall>entry\<in>set [(''25'', ''Hello''), (''21'', ''Rolling in the Deep''),
                       (''25'', ''Water Under the Bridge'')].
             fst entry \<noteq> ''__proto__'' \<and> \<not> array_members (fst entry)"
    by (simp add: array_members_def)
  have 2: "\<forall>entry\<in>set [(''1'', ''foo''), (''2'', ''bar''), (''1'', ''baz'')].
             fst entry \<noteq> ''__proto__'' \<and> \<not> array_members (fst entry)"
    by (simp add: array_members_def)
  have a: "Queue_group array_members fst
     [(''25'', ''Hello''), (''21'', ''Rolling in the Deep''), (''25'', ''Water Under the Bridge'')]
     = Inr [(''21'', ''Rolling in the Deep''), (''25'', ''Hello''), (''25'', ''Water Under the Bridge'')]"
    unfolding Queue_group_enumeration [OF 1] by (simp add: e)
  have b: "grouped fst (first_appearance (map fst
       [(''25'', ''Hello''), (''21'', ''Rolling in the Deep''), (''25'', ''Water Under the Bridge'')]))
     [(''25'', ''Hello''), (''21'', ''Rolling in the Deep''), (''25'', ''Water Under the Bridge'')]
     = [(''25'', ''Hello''), (''25'', ''Water Under the Bridge''), (''21'', ''Rolling in the Deep'')]"
    by (simp add: e)
  have c: "Queue_group array_members fst [(''1'', ''foo''), (''2'', ''bar''), (''1'', ''baz'')]
     = Inr [(''1'', ''foo''), (''1'', ''baz''), (''2'', ''bar'')]"
    unfolding Queue_group_enumeration [OF 2] by (simp add: e)
  have d: "Queue_group array_members fst [(''Adele'', ''Hello''), (''push'', ''bar'')] = Inl TypeError"
    by (simp add: Queue_group_def array_members_def Let_def)
  from a b c d show ?thesis by simp
qed

end
